theory Spec2Isabelle
  imports Main "HOL-Library.Sublist"
begin

section \<open>InspireTree (src/src/tree.ts): data model\<close>

text \<open>
  The eight state flags of a node (\<open>defaultState\<close> of the tree names them), the node
  itself (id, display text, state, children) and the raw record a node is parsed from.
\<close>

record state =
  collapsed :: bool
  focused :: bool
  hidden :: bool
  indeterminate :: bool
  loading :: bool
  removed :: bool
  selectable :: bool
  selected :: bool

datatype node = TreeNode (nodeId: string) (nodeText: string) (itree: state) (children: "node list")

text \<open>\<open>tree.defaultState\<close>, lines 22-31.\<close>

definition defaultState :: state where
  "defaultState = \<lparr>collapsed = True, focused = False, hidden = False, indeterminate = False,
     loading = False, removed = False, selectable = True, selected = False\<rparr>"

text \<open>
  A raw record, as the caller supplies it. Its \<open>id\<close> is any JavaScript value.
  \<open>IdUndefined\<close> stands for a missing id, \<open>undefined\<close> or \<open>null\<close>. A number
  is given by the string \<open>Number.prototype.toString\<close> returns for it: \<open>7\<close>,
  \<open>-3\<close>, \<open>0.5\<close>, \<open>1e+21\<close>, \<open>NaN\<close>, and \<open>0\<close> for both zeros. An array,
  object, function or symbol is given by the string its \<open>toString()\<close> returns: the
  empty string for \<open>[]\<close>, \<open>[object Object]\<close> for a plain object. An object whose
  \<open>toString\<close> is missing, raises or returns something else than a string has no value
  here. Each flag of \<open>itree.state\<close> is a boolean or absent.
\<close>

datatype js_id =
    IdUndefined
  | IdString string
  | IdNumber string
  | IdBoolean bool
  | IdObject string

record raw_state =
  rawCollapsed :: "bool option"
  rawFocused :: "bool option"
  rawHidden :: "bool option"
  rawIndeterminate :: "bool option"
  rawLoading :: "bool option"
  rawRemoved :: "bool option"
  rawSelectable :: "bool option"
  rawSelected :: "bool option"

datatype raw = Raw (rawId: js_id) (rawText: string) (rawState: raw_state) (rawChildren: "raw list")

text \<open>
  What the tree does that a listener, the renderer or the holder of the promise returned
  by \<open>load\<close> can observe, in the order it happens.
\<close>

datatype action =
    Dispatch string
  | SetModel
  | CallSelect string
  | Resolve
  | Reject string
  | Render string

text \<open>
  \<open>_muted\<close> is \<open>false\<close>, \<open>true\<close> or an array of event names; the argument of
  \<open>mute\<close>/\<open>unmute\<close> is a string, an array of strings, or anything else (usually
  \<open>undefined\<close>).
\<close>

datatype muted = MutedBool bool | MutedNames "string list"

datatype events_arg = EvString string | EvArray "string list" | EvOther

record selection =
  autoDeselect :: bool
  autoSelectChildren :: bool
  disableDirectDeselection :: bool
  mode :: string
  multiple :: bool
  require :: bool

record config =
  allowLoadEvents :: "string list"
  resetStateOnRestore :: bool
  customSearch :: bool
  selection :: selection
  showCheckboxes :: bool
  sortKey :: "(raw \<Rightarrow> int) option"

record tree =
  model :: "node list"
  config :: config
  muted_field :: muted
  initialized :: bool
  allowsLoadEvents :: bool
  lastSelectedNode :: "string option"
  preventDeselection :: bool
  isDynamic :: bool
  domScrolls :: bool
  trace :: "action list"
  timers :: "string list"
  cuidCount :: nat

section \<open>Events: emit, mute, unmute, muted\<close>

text \<open>JavaScript truthiness of \<open>_muted\<close>: every array is truthy, the empty one too.\<close>

fun truthy_muted :: "muted \<Rightarrow> bool" where
  "truthy_muted (MutedBool b) = b"
| "truthy_muted (MutedNames xs) = True"

text \<open>\<open>_.castArray\<close> on the argument of mute and unmute.\<close>

fun castArray :: "events_arg \<Rightarrow> string list" where
  "castArray (EvString s) = [s]"
| "castArray (EvArray xs) = xs"
| "castArray EvOther = []"

text \<open>
  \<open>_.difference(array, values)\<close>: the elements of \<open>array\<close> not in \<open>values\<close>, in
  the order of \<open>array\<close>; the empty array when \<open>array\<close> is not array-like (a boolean).
\<close>

fun difference :: "muted \<Rightarrow> string list \<Rightarrow> string list" where
  "difference (MutedBool b) vs = []"
| "difference (MutedNames xs) vs = filter (\<lambda>x. x \<notin> set vs) xs"

text \<open>\<open>muted()\<close>, lines 820-822.\<close>

definition muted :: "tree \<Rightarrow> muted" where
  "muted t = muted_field t"

text \<open>
  The overridden \<open>emit\<close>, lines 94-108: the original emitter runs only under
  \<open>!tree.muted()\<close>. The event's name is not looked at.
\<close>

definition emit :: "string \<Rightarrow> tree \<Rightarrow> tree" where
  "emit name t = (if \<not> truthy_muted (muted t) then t\<lparr>trace := trace t @ [Dispatch name]\<rparr> else t)"

text \<open>\<open>mute(events)\<close>, lines 803-812.\<close>

fun mute :: "events_arg \<Rightarrow> tree \<Rightarrow> tree" where
  "mute EvOther t = t\<lparr>muted_field := MutedBool True\<rparr>"
| "mute ev t = t\<lparr>muted_field := MutedNames (castArray ev)\<rparr>"

text \<open>\<open>unmute(events)\<close>, lines 1246-1259.\<close>

fun unmute :: "events_arg \<Rightarrow> tree \<Rightarrow> tree" where
  "unmute EvOther t = t\<lparr>muted_field := MutedBool False\<rparr>"
| "unmute ev t =
     (let d = difference (muted_field t) (castArray ev)
      in if length d = 0 then t\<lparr>muted_field := MutedBool False\<rparr>
         else t\<lparr>muted_field := MutedNames d\<rparr>)"

text \<open>The selection defaults of the constructor, lines 60-68, and a tree with no nodes.\<close>

definition defaultSelection :: selection where
  "defaultSelection = \<lparr>autoDeselect = True, autoSelectChildren = False,
     disableDirectDeselection = False, mode = ''default'', multiple = False, require = False\<rparr>"

definition defaultConfig :: config where
  "defaultConfig = \<lparr>allowLoadEvents = [], resetStateOnRestore = True, customSearch = False,
     selection = defaultSelection, showCheckboxes = False, sortKey = None\<rparr>"

definition newTree :: "config \<Rightarrow> tree" where
  "newTree c = \<lparr>model = [], config = c, muted_field = MutedBool False, initialized = False,
     allowsLoadEvents = False, lastSelectedNode = None, preventDeselection = False,
     isDynamic = False, domScrolls = False, trace = [], timers = [], cuidCount = 0\<rparr>"

section \<open>Parsing raw records: objectToModel, collectionToModel\<close>

text \<open>Decimal digits of a natural number, for \<open>Number.prototype.toString\<close>.\<close>

definition digit :: "nat \<Rightarrow> char" where
  "digit d = ''0123456789'' ! (d mod 10)"

fun decimal :: "nat \<Rightarrow> string" where
  "decimal n = (if n < 10 then [digit n] else decimal (n div 10) @ [digit (n mod 10)])"

declare decimal.simps [simp del]

text \<open>
  \<open>cuid()\<close> is an external generator of unique opaque strings; here the k-th call
  of a tree returns the letter c followed by k.
\<close>

definition cuid :: "nat \<Rightarrow> string" where
  "cuid k = CHR ''c'' # decimal k"

text \<open>
  JavaScript falsiness of an id, for \<open>object.id || cuid()\<close>: \<open>undefined\<close>,
  \<open>null\<close>, the empty string, the numbers \<open>0\<close>, \<open>-0\<close> and \<open>NaN\<close>, and
  \<open>false\<close>. Every array, object, function and symbol is truthy.
\<close>

fun falsy_id :: "js_id \<Rightarrow> bool" where
  "falsy_id IdUndefined = True"
| "falsy_id (IdString s) = (s = [])"
| "falsy_id (IdNumber s) = (s = ''0'' \<or> s = ''NaN'')"
| "falsy_id (IdBoolean b) = (\<not> b)"
| "falsy_id (IdObject s) = False"

text \<open>\<open>object.id.toString()\<close> of an id that is not a string.\<close>

fun toString :: "js_id \<Rightarrow> string" where
  "toString (IdString s) = s"
| "toString (IdNumber s) = s"
| "toString (IdBoolean b) = (if b then ''true'' else ''false'')"
| "toString (IdObject s) = s"
| "toString IdUndefined = ''undefined''"

text \<open>\<open>state[eventName]\<close> on a parsed state object.\<close>

definition stateFlag :: "string \<Rightarrow> state \<Rightarrow> bool" where
  "stateFlag name st =
     (if name = ''collapsed'' then collapsed st
      else if name = ''focused'' then focused st
      else if name = ''hidden'' then hidden st
      else if name = ''indeterminate'' then indeterminate st
      else if name = ''loading'' then loading st
      else if name = ''removed'' then removed st
      else if name = ''selectable'' then selectable st
      else if name = ''selected'' then selected st
      else False)"

text \<open>The state defaults of \<open>objectToModel\<close>, lines 880-892.\<close>

definition parseState :: "raw_state \<Rightarrow> state" where
  "parseState rs =
     \<lparr>collapsed = (case rawCollapsed rs of Some b \<Rightarrow> b | None \<Rightarrow> collapsed defaultState),
      focused = (case rawFocused rs of Some True \<Rightarrow> True | _ \<Rightarrow> focused defaultState),
      hidden = (case rawHidden rs of Some True \<Rightarrow> True | _ \<Rightarrow> hidden defaultState),
      indeterminate = (case rawIndeterminate rs of Some True \<Rightarrow> True | _ \<Rightarrow> indeterminate defaultState),
      loading = (case rawLoading rs of Some True \<Rightarrow> True | _ \<Rightarrow> loading defaultState),
      removed = (case rawRemoved rs of Some True \<Rightarrow> True | _ \<Rightarrow> removed defaultState),
      selectable = (case rawSelectable rs of Some b \<Rightarrow> b | None \<Rightarrow> selectable defaultState),
      selected = (case rawSelected rs of Some True \<Rightarrow> True | _ \<Rightarrow> selected defaultState)\<rparr>"

text \<open>The id of \<open>objectToModel\<close>, lines 864-868, with the tree's count of generated ids.\<close>

definition ensureId :: "js_id \<Rightarrow> nat \<Rightarrow> string \<times> nat" where
  "ensureId i k =
     (let (i1, k1) = (if falsy_id i then (IdString (cuid k), Suc k) else (i, k))
      in (case i1 of IdString s \<Rightarrow> (s, k1) | _ \<Rightarrow> (toString i1, k1)))"

text \<open>The events for pre-set states, lines 904-911.\<close>

definition loadEvents :: "state \<Rightarrow> tree \<Rightarrow> tree" where
  "loadEvents st t =
     (if allowsLoadEvents t
      then fold (\<lambda>eventName u. if stateFlag eventName st then emit (''node.'' @ eventName) u else u)
             (allowLoadEvents (config t)) t
      else t)"

text \<open>\<open>_.sortBy(array, tree.config.sort)\<close> under \<open>if (tree.config.sort)\<close>: a stable sort.\<close>

definition sortConfigured :: "tree \<Rightarrow> raw list \<Rightarrow> raw list" where
  "sortConfigured t array = (case sortKey (config t) of None \<Rightarrow> array | Some k \<Rightarrow> sort_key k array)"

lemma size_sort_key: "size_list f (sort_key k xs) = size_list f xs"
proof (induction xs)
  case Nil
  show ?case by simp
next
  case (Cons x xs)
  have ins: "size_list f (insort_key k y ys) = Suc (f y + size_list f ys)" for y ys
    by (induction ys) simp_all
  show ?case using Cons by (simp add: ins)
qed

lemma size_sortConfigured: "size_list f (sortConfigured t xs) = size_list f xs"
  by (simp add: sortConfigured_def size_sort_key split: option.split)

text \<open>
  \<open>objectToModel\<close> (lines 861-914), \<open>collectionToModel\<close> (lines 371-387) and the
  \<open>_.each\<close> loop of the latter. \<open>hasChildren()\<close> is a non-empty children array.
\<close>

function objectToModel :: "raw \<Rightarrow> tree \<Rightarrow> node \<times> tree"
  and collectionToModel :: "raw list \<Rightarrow> tree \<Rightarrow> node list \<times> tree"
  and eachToModel :: "raw list \<Rightarrow> tree \<Rightarrow> node list \<times> tree"
where
  "objectToModel (Raw i txt rs cs) t =
     (let (s, k) = ensureId i (cuidCount t);
          t1 = t\<lparr>cuidCount := k\<rparr>;
          st = parseState rs;
          (cs', t2) = (if cs \<noteq> [] then collectionToModel cs t1 else ([], t1))
      in (TreeNode s txt st cs', loadEvents st t2))"
| "collectionToModel array t = eachToModel (sortConfigured t array) t"
| "eachToModel [] t = ([], t)"
| "eachToModel (r # rest) t =
     (let (n, t1) = objectToModel r t;
          (ns, t2) = eachToModel rest t1
      in (n # ns, t2))"
  by pat_completeness auto
termination
  by (relation "measure (\<lambda>x. case x of
        Inl (r, t) \<Rightarrow> 3 * size r
      | Inr (Inl (rs, t)) \<Rightarrow> 3 * size_list size rs + 2
      | Inr (Inr (rs, t)) \<Rightarrow> 3 * size_list size rs + 1)")
     (auto simp: size_sortConfigured)

text \<open>A raw record's \<open>itree.state\<close> with no flag given.\<close>

definition noState :: raw_state where
  "noState = \<lparr>rawCollapsed = None, rawFocused = None, rawHidden = None, rawIndeterminate = None,
     rawLoading = None, rawRemoved = None, rawSelectable = None, rawSelected = None\<rparr>"

section \<open>Nodes in document order, selection, selectBetween\<close>

text \<open>
  A call of the renderer contract (\<open>tree.dom.batch()\<close>, \<open>end()\<close>,
  \<open>applyChanges()\<close>, \<open>scrollSelectedIntoView()\<close>), recorded by its name.
\<close>

definition render :: "string \<Rightarrow> tree \<Rightarrow> tree" where
  "render name t = t\<lparr>trace := trace t @ [Render name]\<rparr>"

text \<open>
  The nodes of a collection in document order (a node, then its children, then its next
  sibling), each with its id and whether it is visible. The visibility is the data model's:
  \<open>!hidden && !removed &&\<close> every ancestor is \<open>!collapsed\<close>.
\<close>

fun nodeEntries :: "bool \<Rightarrow> node \<Rightarrow> (string \<times> bool) list"
  and forestEntries :: "bool \<Rightarrow> node list \<Rightarrow> (string \<times> bool) list"
where
  "nodeEntries anc (TreeNode i tx st cs) =
     (i, anc \<and> \<not> hidden st \<and> \<not> removed st) # forestEntries (anc \<and> \<not> collapsed st) cs"
| "forestEntries anc [] = []"
| "forestEntries anc (n # ns) = nodeEntries anc n @ forestEntries anc ns"

text \<open>
  Modelled from the spec: \<open>TreeNode.nextVisibleNode()\<close> (treenode.ts is not among the
  sources). "Given current structural position, returns the next Node (document order:
  children before siblings) that is visible, or none if this is the last visible node in
  the tree." A node is referred to by its id; \<open>visibleAfter\<close> lists the visible nodes
  after it.
\<close>

definition visibleAfter :: "node list \<Rightarrow> string \<Rightarrow> string list" where
  "visibleAfter m i =
     (case dropWhile (\<lambda>e. fst e \<noteq> i) (forestEntries True m) of
        [] \<Rightarrow> []
      | e # rest \<Rightarrow> map fst (filter snd rest))"

definition nextVisibleNode :: "node list \<Rightarrow> string \<Rightarrow> string option" where
  "nextVisibleNode m i = (case visibleAfter m i of [] \<Rightarrow> None | j # rest \<Rightarrow> Some j)"

text \<open>The node of a given id, searched in document order (\<open>tree.node(id)\<close>).\<close>

fun findNode :: "string \<Rightarrow> node list \<Rightarrow> node option" where
  "findNode i [] = None"
| "findNode i (TreeNode j tx st cs # ns) =
     (if j = i then Some (TreeNode j tx st cs)
      else (case findNode i cs of Some c \<Rightarrow> Some c | None \<Rightarrow> findNode i ns))"

text \<open>
  Modelled from the spec: \<open>TreeNode.select()\<close> (treenode.ts is not among the sources).
  "If the node is not selectable, no-op. If selection mode is exclusive (multiple=false):
  deselect the previously selected node tree-wide (unless it is this node) before
  selecting. If autoSelectChildren is configured: recursively select every descendant and
  recompute this node's and every ancestor's indeterminate/selected status (a node is
  selected only if all children are selected; otherwise it may be indeterminate). Record
  this node as lastSelectedNode." A removed node cannot be selected, and the change is
  announced by the event \<open>node.selected\<close>. Every call is recorded in the trace.
\<close>

definition recompute :: "state \<Rightarrow> node list \<Rightarrow> state" where
  "recompute st cs =
     (if list_all (\<lambda>c. selected (itree c)) cs
      then st\<lparr>selected := True, indeterminate := False\<rparr>
      else st\<lparr>selected := False,
              indeterminate := list_ex (\<lambda>c. selected (itree c) \<or> indeterminate (itree c)) cs\<rparr>)"

fun selectNode :: "selection \<Rightarrow> string \<Rightarrow> bool \<Rightarrow> node \<Rightarrow> node"
  and selectForest :: "selection \<Rightarrow> string \<Rightarrow> bool \<Rightarrow> node list \<Rightarrow> node list"
where
  "selectNode sel i inside (TreeNode j tx st cs) =
     (let hit = (j = i);
          cs' = selectForest sel i (inside \<or> (hit \<and> autoSelectChildren sel)) cs;
          st1 = (if hit \<or> inside then st\<lparr>selected := True\<rparr>
                 else if \<not> multiple sel then st\<lparr>selected := False\<rparr>
                 else st);
          st2 = (if autoSelectChildren sel \<and> \<not> hit \<and> \<not> inside \<and> findNode i cs \<noteq> None
                 then recompute st1 cs' else st1)
      in TreeNode j tx st2 cs')"
| "selectForest sel i inside [] = []"
| "selectForest sel i inside (n # ns) = selectNode sel i inside n # selectForest sel i inside ns"

definition select :: "string \<Rightarrow> tree \<Rightarrow> tree" where
  "select i t =
     (let t1 = t\<lparr>trace := trace t @ [CallSelect i]\<rparr>
      in (case findNode i (model t1) of
            None \<Rightarrow> t1
          | Some n \<Rightarrow>
              if \<not> selectable (itree n) \<or> removed (itree n) then t1
              else emit ''node.selected''
                     (t1\<lparr>model := selectForest (selection (config t1)) i False (model t1),
                         lastSelectedNode := Some i\<rparr>)))"

text \<open>
  \<open>selectBetween\<close>, lines 1104-1121. The \<open>while\<close> loop is \<open>selectLoop\<close>; it need
  not end on a model in which two nodes share an id.
\<close>

partial_function (option) selectLoop :: "string \<Rightarrow> string option \<Rightarrow> tree \<Rightarrow> tree option" where
  "selectLoop endId cur t =
     (case cur of
        None \<Rightarrow> Some t
      | Some n \<Rightarrow>
          if n = endId then Some t
          else (let t1 = select n t in selectLoop endId (nextVisibleNode (model t1) n) t1))"

declare selectLoop.simps [code]

definition selectBetween :: "string \<Rightarrow> string \<Rightarrow> tree \<Rightarrow> tree option" where
  "selectBetween startNode endNode t =
     (let t0 = render ''batch'' t
      in (case selectLoop endNode (nextVisibleNode (model t0) startNode) t0 of
            None \<Rightarrow> None
          | Some t1 \<Rightarrow> Some (render ''end'' t1)))"

text \<open>The ids \<open>select()\<close> was called on, read off a trace.\<close>

fun selectCalls :: "action list \<Rightarrow> string list" where
  "selectCalls [] = []"
| "selectCalls (CallSelect i # as) = i # selectCalls as"
| "selectCalls (a # as) = selectCalls as"

text \<open>Small trees for the examples.\<close>

definition leaf :: "string \<Rightarrow> string \<Rightarrow> node" where
  "leaf i tx = TreeNode i tx defaultState []"

definition treeOf :: "node list \<Rightarrow> tree" where
  "treeOf m = (newTree defaultConfig)\<lparr>model := m, initialized := True\<rparr>"

definition abc :: "node list" where
  "abc = [leaf ''a'' ''A'', leaf ''b'' ''B'', leaf ''c'' ''C'']"

section \<open>boundingNodes\<close>

text \<open>
  Modelled from the spec: \<open>TreeNode.indexPath()\<close> (treenode.ts is not among the sources).
  "Produces a dot-joined sequence of this node's position within its collection and each
  ancestor's position within its own collection, root first." \<open>pathOf\<close> finds the
  positions of the node of a given id, \<open>None\<close> when the model has no such node.
\<close>

fun pathOf :: "string \<Rightarrow> nat \<Rightarrow> node list \<Rightarrow> nat list option" where
  "pathOf i k [] = None"
| "pathOf i k (TreeNode j tx st cs # ns) =
     (if j = i then Some [k]
      else (case pathOf i 0 cs of Some p \<Rightarrow> Some (k # p) | None \<Rightarrow> pathOf i (Suc k) ns))"

fun joinDots :: "string list \<Rightarrow> string" where
  "joinDots [] = []"
| "joinDots [s] = s"
| "joinDots (s # r # rest) = s @ CHR ''.'' # joinDots (r # rest)"

definition indexPath :: "node list \<Rightarrow> string \<Rightarrow> string option" where
  "indexPath m i = map_option (\<lambda>p. joinDots (map decimal p)) (pathOf i 0 m)"

text \<open>\<open>.replace(/\./g, '')\<close>: every dot removed.\<close>

definition removeDots :: "string \<Rightarrow> string" where
  "removeDots s = filter (\<lambda>c. c \<noteq> CHR ''.'') s"

text \<open>\<open>map[key] = node\<close> on an object: a key already there keeps its place and gets the new value.\<close>

fun assign :: "string \<Rightarrow> string \<Rightarrow> (string \<times> string) list \<Rightarrow> (string \<times> string) list" where
  "assign k v [] = [(k, v)]"
| "assign k v ((k', v') # m) = (if k' = k then (k, v) # m else (k', v') # assign k v m)"

text \<open>
  The \<open>_.transform\<close> of lines 277-279: the map from dot-stripped index path to node,
  filled in the order of the arguments. \<open>None\<close> when an argument is not a node of the model.
\<close>

fun pathMapOf :: "node list \<Rightarrow> string list \<Rightarrow> (string \<times> string) list \<Rightarrow> (string \<times> string) list option" where
  "pathMapOf m [] acc = Some acc"
| "pathMapOf m (n # args) acc =
     (case indexPath m n of
        None \<Rightarrow> None
      | Some p \<Rightarrow> pathMapOf m args (assign (removeDots p) n acc))"

text \<open>
  JavaScript's \<open><\<close> on strings (by code unit, a proper prefix first) and the stable
  ascending sort \<open>_.sortBy\<close> does with it.
\<close>

fun str_less :: "string \<Rightarrow> string \<Rightarrow> bool" where
  "str_less [] [] = False"
| "str_less [] (y # ys) = True"
| "str_less (x # xs) [] = False"
| "str_less (x # xs) (y # ys) =
     ((of_char x :: nat) < of_char y \<or> (x = y \<and> str_less xs ys))"

fun insortStr :: "string \<Rightarrow> string list \<Rightarrow> string list" where
  "insortStr x [] = [x]"
| "insortStr x (y # ys) = (if \<not> str_less y x then x # y # ys else y # insortStr x ys)"

definition sortBy :: "string list \<Rightarrow> string list" where
  "sortBy xs = foldr insortStr xs []"

text \<open>
  \<open>_.get(object, path)\<close> on the path map. A string path made of digits is one key. An
  array path is followed key by key from the object: the empty array yields
  \<open>undefined\<close>, and from the second key on the lookup is in a TreeNode, which has no
  property named by a string of digits.
\<close>

datatype jsval = JUndefined | JNode string

fun lodash_get :: "(string \<times> string) list \<Rightarrow> string list \<Rightarrow> jsval" where
  "lodash_get pm [] = JUndefined"
| "lodash_get pm [k] = (case map_of pm k of None \<Rightarrow> JUndefined | Some n \<Rightarrow> JNode n)"
| "lodash_get pm (k # k' # ks) = JUndefined"

text \<open>
  \<open>boundingNodes\<close>, lines 273-286, on the ids of the nodes passed: \<open>_.head(paths)\<close> is
  the first path (a string, or \<open>undefined\<close>), \<open>_.tail(paths)\<close> the array of all the
  paths but the first.
\<close>

definition boundingNodes :: "node list \<Rightarrow> string list \<Rightarrow> (jsval \<times> jsval) option" where
  "boundingNodes m args =
     (case pathMapOf m args [] of
        None \<Rightarrow> None
      | Some pathMap \<Rightarrow>
          (let paths = sortBy (map fst pathMap)
           in Some ((case paths of [] \<Rightarrow> JUndefined | p # rest \<Rightarrow> lodash_get pathMap [p]),
                    lodash_get pathMap (tl paths))))"

section \<open>load\<close>

text \<open>
  The value \<open>complete\<close> receives as \<open>nodes\<close>: an array of raw records; any other
  value in which \<open>_.sortBy\<close> and \<open>_.each\<close> find raw records and which is not a string
  (an array-like object such as \<open>{length: 1, 0: record}\<close>; with no record in it also
  \<open>undefined\<close>, \<open>null\<close> or a number); or a string, whose elements are its characters.
\<close>

datatype nodes = NArray "raw list" | NArrayLike "raw list" | NString string

text \<open>
  The loader contract, by the tests \<open>load\<close> makes on its argument (lines 759-781):
  \<^item> \<open>LArray\<close>: an array of raw records;
  \<^item> \<open>LArrayLike\<close>: an object that is array-like, not an array and has no \<open>then\<close>;
  \<^item> \<open>LString\<close>: a string, which is array-like and not an object;
  \<^item> \<open>LFunction\<close>: a function, called as \<open>loader(null, complete, error)\<close>. It is
    described by the callbacks it invokes while it runs, in order, and by how it ends: it
    returns a falsy value or an object (\<open>Returns\<close>, with the promise-like object if it is
    one), it returns a truthy value that is not an object, such as \<open>true\<close>
    (\<open>ReturnsPrimitive\<close>), or it throws. An exception raised by \<open>complete\<close> is taken to
    leave the function;
  \<^item> \<open>LThenable\<close>: a promise-like object. It resolves with a value for \<open>nodes\<close>,
    rejects through its \<open>catch\<close>/\<open>error\<close> hook, or never settles;
  \<^item> \<open>LObject\<close>: any other object, one with no \<open>then\<close>;
  \<^item> \<open>LPrimitive\<close>: a value that is not array-like, not a function and not an object:
    a number, a boolean, \<open>null\<close>, \<open>undefined\<close>.
\<close>

datatype thenable = Resolves nodes | Rejects string | NeverSettles

datatype call = CallComplete nodes | CallError string

datatype fn_end = Returns "thenable option" | ReturnsPrimitive | Throws string

datatype loader =
    LArray "raw list"
  | LArrayLike "raw list"
  | LString string
  | LFunction "call list" fn_end
  | LThenable thenable
  | LObject
  | LPrimitive

text \<open>The promise \<open>load\<close> returns; it settles once.\<close>

datatype promise = Pending | Resolved "node list" | Rejected string

text \<open>\<open>removeAll\<close>, lines 946-951.\<close>

definition removeAll :: "tree \<Rightarrow> tree" where
  "removeAll t = render ''applyChanges'' (t\<lparr>model := []\<rparr>)"

text \<open>
  Modelled from the spec: \<open>TreeNodes.selected()\<close> (treenodes.ts is not among the
  sources), the query for all selected nodes of the collection and below it, flattened to
  the matches.
\<close>

fun selectedDeep :: "node list \<Rightarrow> node list" where
  "selectedDeep [] = []"
| "selectedDeep (TreeNode i tx st cs # ns) =
     (if selected st then [TreeNode i tx st cs] else []) @ selectedDeep cs @ selectedDeep ns"

text \<open>
  \<open>selectFirstAvailableNode\<close>, lines 1150-1157. Modelled from the spec:
  \<open>model.filter('available').get(0)\<close> (treenodes.ts is not among the sources) is "the
  first available root node", available meaning not removed.
\<close>

definition firstAvailable :: "node list \<Rightarrow> node option" where
  "firstAvailable m = (case filter (\<lambda>n. \<not> removed (itree n)) m of [] \<Rightarrow> None | n # rest \<Rightarrow> Some n)"

definition selectFirstAvailableNode :: "tree \<Rightarrow> tree" where
  "selectFirstAvailableNode t =
     (case firstAvailable (model t) of None \<Rightarrow> t | Some n \<Rightarrow> select (nodeId n) t)"

text \<open>\<open>_.isArray(nodes)\<close>.\<close>

fun isArray :: "nodes \<Rightarrow> bool" where
  "isArray (NArray ns) = True"
| "isArray (NArrayLike ns) = False"
| "isArray (NString s) = False"

text \<open>
  The two emissions of \<open>complete\<close>: through \<open>setTimeout\<close> when the tree is not yet
  initialized and the records are an array, at once otherwise. A deferred emission waits
  in \<open>timers\<close>.
\<close>

definition emitOrDefer :: "bool \<Rightarrow> string \<Rightarrow> tree \<Rightarrow> tree" where
  "emitOrDefer isArr name t =
     (if \<not> initialized t \<and> isArr then t\<lparr>timers := timers t @ [name]\<rparr> else emit name t)"

text \<open>
  \<open>tree.collectionToModel(nodes)\<close> as \<open>complete\<close> calls it. On a string with a
  character in it, \<open>objectToModel\<close> receives the first character: \<open>object.id\<close> is
  \<open>undefined\<close>, \<open>cuid()\<close> runs, and the assignment to \<open>object.id\<close> raises a
  TypeError, the file being in strict mode. The result is then the exception, with the tree
  as the call leaves it. The text of the exception is the engine's. A configured sort
  function is taken to return on characters.
\<close>

definition assignmentTypeError :: string where
  "assignmentTypeError = ''TypeError: Cannot create property id on string''"

fun collectionToModelOf :: "nodes \<Rightarrow> tree \<Rightarrow> (string \<times> tree) + (node list \<times> tree)" where
  "collectionToModelOf (NArray ns) t = Inr (collectionToModel ns t)"
| "collectionToModelOf (NArrayLike ns) t = Inr (collectionToModel ns t)"
| "collectionToModelOf (NString s) t =
     (if s = [] then Inr ([], t)
      else Inl (assignmentTypeError, t\<lparr>cuidCount := Suc (cuidCount t)\<rparr>))"

text \<open>\<open>resolve(tree.model)\<close> and \<open>reject(err)\<close> on the promise of \<open>load\<close>.\<close>

definition resolve :: "tree \<times> promise \<Rightarrow> tree \<times> promise" where
  "resolve tp =
     (case tp of (t, p) \<Rightarrow>
        (t\<lparr>trace := trace t @ [Resolve]\<rparr>, if p = Pending then Resolved (model t) else p))"

definition reject :: "string \<Rightarrow> tree \<times> promise \<Rightarrow> tree \<times> promise" where
  "reject err tp =
     (case tp of (t, p) \<Rightarrow>
        (t\<lparr>trace := trace t @ [Reject err]\<rparr>, if p = Pending then Rejected err else p))"

text \<open>
  \<open>complete\<close>, lines 712-752. The second component of the result is the exception the
  call raises, if any: the statements after \<open>collectionToModel\<close> are then not run.
\<close>

definition complete :: "nodes \<Rightarrow> tree \<times> promise \<Rightarrow> (tree \<times> promise) \<times> string option" where
  "complete nodes tp =
     (case tp of (t, p) \<Rightarrow>
        (let t1 = emitOrDefer (isArray nodes) ''data.loaded'' t;
             t2 = (if length (model t1) > 0 then removeAll t1 else t1)
         in (case collectionToModelOf nodes t2 of
               Inl (e, t3) \<Rightarrow> ((t3, p), Some e)
             | Inr (m, t3) \<Rightarrow>
                 (let t4 = t3\<lparr>model := m, trace := trace t3 @ [SetModel]\<rparr>;
                      t5 = (if require (selection (config t4)) \<and> length (selectedDeep (model t4)) = 0
                            then selectFirstAvailableNode t4 else t4);
                      t6 = emitOrDefer (isArray nodes) ''model.loaded'' t5;
                      (t7, p') = resolve (t6, p);
                      t8 = render ''applyChanges'' t7
                  in ((if domScrolls t8 then render ''scrollSelectedIntoView'' t8 else t8, p'),
                      None)))))"

text \<open>\<open>error\<close>, lines 754-757.\<close>

definition error :: "string \<Rightarrow> tree \<times> promise \<Rightarrow> tree \<times> promise" where
  "error err tp = (case tp of (t, p) \<Rightarrow> reject err (emit ''data.loaderror'' t, p))"

text \<open>
  The callbacks a loader function invokes while it runs. An exception out of
  \<open>complete\<close> ends the run.
\<close>

fun runCalls :: "call list \<Rightarrow> tree \<times> promise \<Rightarrow> (tree \<times> promise) \<times> string option" where
  "runCalls [] tp = (tp, None)"
| "runCalls (CallComplete nodes # calls) tp =
     (case complete nodes tp of
        (tp1, None) \<Rightarrow> runCalls calls tp1
      | (tp1, Some e) \<Rightarrow> (tp1, Some e))"
| "runCalls (CallError err # calls) tp = runCalls calls (error err tp)"

text \<open>
  An exception out of the executor of the promise \<open>load\<close> returns rejects that promise,
  unless it is settled already; nothing else happens.
\<close>

definition throwOut :: "string \<Rightarrow> tree \<times> promise \<Rightarrow> tree \<times> promise \<times> thenable option" where
  "throwOut err tp = (case tp of (t, p) \<Rightarrow> (t, if p = Pending then Rejected err else p, None))"

text \<open>
  The body of \<open>load\<close>, lines 759-781, run inside the promise's executor: what happens
  before \<open>load\<close> returns. An array-like source goes to \<open>complete\<close>, a function is
  called; then a source (or the truthy value the function returned) that is an object goes
  to \<open>standardizePromise(loader).then(complete).catch(error)\<close>, and any other raises
  \<open>Invalid data loader.\<close> The third component is the promise-like object that chain
  waits for: an array, an object with no \<open>then\<close> and a function that returned a falsy
  value are objects too, but nothing settles for them.
\<close>

fun load :: "loader \<Rightarrow> tree \<Rightarrow> tree \<times> promise \<times> thenable option" where
  "load (LArray ns) t =
     (case complete (NArray ns) (t, Pending) of
        ((t1, p), None) \<Rightarrow> (t1, p, None)
      | (tp, Some e) \<Rightarrow> throwOut e tp)"
| "load (LArrayLike ns) t =
     (case complete (NArrayLike ns) (t, Pending) of
        ((t1, p), None) \<Rightarrow> (t1, p, None)
      | (tp, Some e) \<Rightarrow> throwOut e tp)"
| "load (LString s) t =
     (case complete (NString s) (t, Pending) of
        (tp, None) \<Rightarrow> throwOut ''Invalid data loader.'' tp
      | (tp, Some e) \<Rightarrow> throwOut e tp)"
| "load (LFunction calls (Returns resp)) t =
     (case runCalls calls (t, Pending) of
        ((t1, p), None) \<Rightarrow> (t1, p, resp)
      | (tp, Some e) \<Rightarrow> throwOut e tp)"
| "load (LFunction calls ReturnsPrimitive) t =
     (case runCalls calls (t, Pending) of
        (tp, None) \<Rightarrow> throwOut ''Invalid data loader.'' tp
      | (tp, Some e) \<Rightarrow> throwOut e tp)"
| "load (LFunction calls (Throws err)) t =
     (case runCalls calls (t, Pending) of
        (tp, None) \<Rightarrow> throwOut err tp
      | (tp, Some e) \<Rightarrow> throwOut e tp)"
| "load (LThenable th) t = (t, Pending, Some th)"
| "load LObject t = (t, Pending, None)"
| "load LPrimitive t = throwOut ''Invalid data loader.'' (t, Pending)"

text \<open>
  What follows once \<open>load\<close> has returned: the reaction to the promise-like object
  settling (\<open>then(complete)\<close>, with \<open>catch(error)\<close> for its rejection and for an
  exception out of \<open>complete\<close>) and the deferred emissions.
\<close>

fun settle :: "thenable option \<Rightarrow> tree \<times> promise \<Rightarrow> tree \<times> promise" where
  "settle (Some (Resolves nodes)) tp =
     (case complete nodes tp of
        (tp1, None) \<Rightarrow> tp1
      | (tp1, Some e) \<Rightarrow> error e tp1)"
| "settle (Some (Rejects err)) tp = error err tp"
| "settle (Some NeverSettles) tp = tp"
| "settle None tp = tp"


text \<open>A \<open>load\<close> followed by the reaction to the settling of what it waits for.\<close>

definition loadAll :: "loader \<Rightarrow> tree \<Rightarrow> tree \<times> promise" where
  "loadAll loader t = (case load loader t of (t1, p, waits) \<Rightarrow> settle waits (t1, p))"






text \<open>The steps of a load in a trace, and the events of a given name.\<close>

fun isLoadStep :: "action \<Rightarrow> bool" where
  "isLoadStep (Dispatch e) = (e = ''data.loaded'' \<or> e = ''model.loaded'')"
| "isLoadStep SetModel = True"
| "isLoadStep (CallSelect i) = True"
| "isLoadStep Resolve = True"
| "isLoadStep (Reject e) = False"
| "isLoadStep (Render r) = False"

definition loadSteps :: "action list \<Rightarrow> action list" where
  "loadSteps tr = filter isLoadStep tr"

section \<open>The constructor\<close>

text \<open>
  The options a caller passes: \<open>data\<close> and \<open>target\<close> are \<open>None\<close> when missing or
  falsy, any other option is \<open>None\<close> when not given.
\<close>

record selection_opts =
  optAutoDeselect :: "bool option"
  optAutoSelectChildren :: "bool option"
  optDisableDirectDeselection :: "bool option"
  optMode :: "string option"
  optMultiple :: "bool option"
  optRequire :: "bool option"

record opts =
  optData :: "loader option"
  optTarget :: "string option"
  optAllowLoadEvents :: "string list option"
  optResetStateOnRestore :: "bool option"
  optSearch :: bool
  optSelection :: selection_opts
  optShowCheckboxes :: "bool option"
  optSort :: "(raw \<Rightarrow> int) option"

datatype exception = TypeError string | SyntaxError string

definition orDefault :: "'a option \<Rightarrow> 'a \<Rightarrow> 'a" where
  "orDefault v d = (case v of Some x \<Rightarrow> x | None \<Rightarrow> d)"

text \<open>\<open>_.defaultsDeep({}, opts, {...})\<close>, lines 51-72.\<close>

definition defaultsDeep :: "opts \<Rightarrow> config" where
  "defaultsDeep opts =
     \<lparr>allowLoadEvents = orDefault (optAllowLoadEvents opts) [],
      resetStateOnRestore = orDefault (optResetStateOnRestore opts) True,
      customSearch = optSearch opts,
      selection =
        \<lparr>autoDeselect = orDefault (optAutoDeselect (optSelection opts)) True,
         autoSelectChildren = orDefault (optAutoSelectChildren (optSelection opts)) False,
         disableDirectDeselection = orDefault (optDisableDirectDeselection (optSelection opts)) False,
         mode = orDefault (optMode (optSelection opts)) ''default'',
         multiple = orDefault (optMultiple (optSelection opts)) False,
         require = orDefault (optRequire (optSelection opts)) False\<rparr>,
      showCheckboxes = orDefault (optShowCheckboxes opts) False,
      sortKey = optSort opts\<rparr>"

text \<open>The forced selection settings, lines 74-87.\<close>

definition forceSelection :: "opts \<Rightarrow> config \<Rightarrow> config" where
  "forceSelection opts c =
     (let c1 = (if mode (selection c) = ''checkbox''
                then c\<lparr>selection := (selection c)\<lparr>autoSelectChildren := True, autoDeselect := False\<rparr>,
                       showCheckboxes := (if optShowCheckboxes opts = None then True else showCheckboxes c)\<rparr>
                else c)
      in (if autoSelectChildren (selection c1)
          then c1\<lparr>selection := (selection c1)\<lparr>multiple := True\<rparr>\<rparr>
          else c1))"

text \<open>
  The constructor, lines 39-140. \<open>DOM\<close> is the build's constant: the DOM renderer is
  compiled in. \<open>scrolls\<close> tells whether the renderer in use has
  \<open>scrollSelectedIntoView\<close>. The result is the exception thrown, or the tree with the
  promise of its first \<open>load\<close> and what that load still waits for.
\<close>

definition isFunctionLoader :: "loader \<Rightarrow> bool" where
  "isFunctionLoader l = (case l of LFunction calls e \<Rightarrow> True | _ \<Rightarrow> False)"

definition constructor :: "bool \<Rightarrow> bool \<Rightarrow> opts \<Rightarrow> exception + (tree \<times> promise \<times> thenable option)" where
  "constructor DOM scrolls opts =
     (case optData opts of
        None \<Rightarrow> Inl (TypeError ''Invalid data loader.'')
      | Some d \<Rightarrow>
          (let c = forceSelection opts (defaultsDeep opts);
               t = (newTree c)\<lparr>allowsLoadEvents := (length (allowLoadEvents c) > 0),
                                isDynamic := isFunctionLoader d,
                                domScrolls := scrolls\<rparr>
           in if DOM \<and> optTarget opts = None
              then Inl (TypeError ''Property target is required, either an element or a selector.'')
              else (case load d (render ''attach'' t) of
                      (t1, p, waits) \<Rightarrow> Inr (t1\<lparr>initialized := True\<rparr>, p, waits))))"


definition noSelection :: selection_opts where
  "noSelection = \<lparr>optAutoDeselect = None, optAutoSelectChildren = None,
     optDisableDirectDeselection = None, optMode = None, optMultiple = None, optRequire = None\<rparr>"

definition rec1 :: "raw list" where
  "rec1 = [Raw (IdNumber ''1'') ''A'' noState [Raw (IdNumber ''2'') ''B'' noState []]]"

definition dataOnly :: "loader \<Rightarrow> opts" where
  "dataOnly d = \<lparr>optData = Some d, optTarget = None, optAllowLoadEvents = None,
     optResetStateOnRestore = None, optSearch = False, optSelection = noSelection,
     optShowCheckboxes = None, optSort = None\<rparr>"

text \<open>Options asking for checkbox mode and, against it, for single selection.\<close>

definition checkboxOpts :: opts where
  "checkboxOpts = (dataOnly (LArray rec1))\<lparr>optSelection :=
     noSelection\<lparr>optMode := Some ''checkbox'', optMultiple := Some False\<rparr>\<rparr>"

section \<open>Walking the model: recurseDown, state changes, clearSearch, search\<close>

text \<open>
  During a walk a node is addressed by its position: the index of its root ancestor, then
  of each ancestor below within its parent's children, then its own. \<open>nodeAt\<close> reads
  the node at a position and \<open>updateAt\<close> changes the state of the node there.
\<close>

fun nodeAt :: "node list \<Rightarrow> nat list \<Rightarrow> node option" where
  "nodeAt m [] = None"
| "nodeAt m [k] = (if k < length m then Some (m ! k) else None)"
| "nodeAt m (k # j # p) = (if k < length m then nodeAt (children (m ! k)) (j # p) else None)"

fun updateAt :: "nat list \<Rightarrow> (state \<Rightarrow> state) \<Rightarrow> node list \<Rightarrow> node list" where
  "updateAt [] f m = m"
| "updateAt [k] f m =
     (if k < length m
      then m[k := TreeNode (nodeId (m ! k)) (nodeText (m ! k)) (f (itree (m ! k))) (children (m ! k))]
      else m)"
| "updateAt (k # j # p) f m =
     (if k < length m
      then m[k := TreeNode (nodeId (m ! k)) (nodeText (m ! k)) (itree (m ! k))
                    (updateAt (j # p) f (children (m ! k)))]
      else m)"

definition stateAt :: "node list \<Rightarrow> nat list \<Rightarrow> state option" where
  "stateAt m p = map_option itree (nodeAt m p)"

text \<open>
  Modelled from the spec: \<open>TreeNodes.recurseDown(iteratee)\<close> (treenodes.ts is not among
  the sources), the "depth-first pre-order walk" that recurses "into every node's children
  unconditionally". \<open>forestPaths k m\<close> lists the positions of the nodes of \<open>m\<close> and below in
  that order, \<open>k\<close> being the index of the first node of \<open>m\<close>. No iteratee of this file
  returns the stop value or changes the shape of the model, so the walk calls the iteratee
  on these positions one after the other.
\<close>

fun forestPaths :: "nat \<Rightarrow> node list \<Rightarrow> nat list list" where
  "forestPaths k [] = []"
| "forestPaths k (TreeNode i tx st cs # ns) =
     [k] # map ((#) k) (forestPaths 0 cs) @ forestPaths (Suc k) ns"

definition recurseDown :: "(nat list \<Rightarrow> 'a \<Rightarrow> 'a) \<Rightarrow> node list \<Rightarrow> 'a \<Rightarrow> 'a" where
  "recurseDown iteratee m acc = fold iteratee (forestPaths 0 m) acc"

text \<open>\<open>node.state(prop, value)\<close> on a state object: an unknown name changes nothing.\<close>

definition setFlag :: "string \<Rightarrow> bool \<Rightarrow> state \<Rightarrow> state" where
  "setFlag name v st =
     (if name = ''collapsed'' then st\<lparr>collapsed := v\<rparr>
      else if name = ''focused'' then st\<lparr>focused := v\<rparr>
      else if name = ''hidden'' then st\<lparr>hidden := v\<rparr>
      else if name = ''indeterminate'' then st\<lparr>indeterminate := v\<rparr>
      else if name = ''loading'' then st\<lparr>loading := v\<rparr>
      else if name = ''removed'' then st\<lparr>removed := v\<rparr>
      else if name = ''selectable'' then st\<lparr>selectable := v\<rparr>
      else if name = ''selected'' then st\<lparr>selected := v\<rparr>
      else st)"

text \<open>\<open>resetState\<close>, lines 971-977: every flag back to the tree's default.\<close>

definition resetState :: "nat list \<Rightarrow> tree \<Rightarrow> tree" where
  "resetState p t = t\<lparr>model := updateAt p (\<lambda>st. defaultState) (model t)\<rparr>"

text \<open>
  \<open>baseStateChange\<close>, lines 225-244, for a node given by its position. \<open>deep\<close> is the
  state method to call on every node below, if any. \<open>markDirty()\<close> sets the transient
  dirty marker, which the model does not keep.
\<close>

definition baseStateChange ::
  "string \<Rightarrow> bool \<Rightarrow> string \<Rightarrow> nat list \<Rightarrow> (nat list \<Rightarrow> tree \<Rightarrow> tree) option \<Rightarrow> tree \<Rightarrow> tree" where
  "baseStateChange prop v verb p deep t =
     (case nodeAt (model t) p of
        None \<Rightarrow> t
      | Some n \<Rightarrow>
          if stateFlag prop (itree n) \<noteq> v
          then (let t1 = (if resetStateOnRestore (config t) \<and> verb = ''restored''
                          then resetState p t else t);
                    t2 = t1\<lparr>model := updateAt p (setFlag prop v) (model t1)\<rparr>;
                    t3 = emit (''node.'' @ verb) t2;
                    t4 = (case deep of
                            None \<Rightarrow> t3
                          | Some method \<Rightarrow>
                              fold method (map ((@) p) (forestPaths 0 (children n))) t3)
                in render ''applyChanges'' t4)
          else t)"

text \<open>
  Modelled from the spec: \<open>TreeNode.show()\<close> and \<open>TreeNode.collapse()\<close> (treenode.ts is
  not among the sources), "sugar over \<open>state(...)\<close>" that "must all funnel through one
  shared state-change routine": \<open>hidden\<close> set to false with the verb \<open>shown\<close>, and
  \<open>collapsed\<close> set to true with the verb \<open>collapsed\<close>.
\<close>

definition "show" :: "nat list \<Rightarrow> tree \<Rightarrow> tree" where
  "show p t = baseStateChange ''hidden'' False ''shown'' p None t"

definition collapse :: "nat list \<Rightarrow> tree \<Rightarrow> tree" where
  "collapse p t = baseStateChange ''collapsed'' True ''collapsed'' p None t"

text \<open>
  \<open>baseInvoke\<close>, lines 196-212, on the root collection with \<open>deep\<close> set, the methods
  given as functions. Modelled from the spec: \<open>showDeep()\<close> and \<open>collapseDeep()\<close> of
  TreeNodes (treenodes.ts is not among the sources) invoke \<open>show\<close> and \<open>collapse\<close> on
  every node of the collection and below.
\<close>

definition baseInvokeDeep :: "(nat list \<Rightarrow> tree \<Rightarrow> tree) list \<Rightarrow> tree \<Rightarrow> tree" where
  "baseInvokeDeep methods t =
     render ''end''
       (recurseDown (\<lambda>p u. fold (\<lambda>method. method p) methods u) (model t) (render ''batch'' t))"

definition showDeep :: "tree \<Rightarrow> tree" where
  "showDeep t = baseInvokeDeep [show] t"

definition collapseDeep :: "tree \<Rightarrow> tree" where
  "collapseDeep t = baseInvokeDeep [collapse] t"

text \<open>\<open>clearSearch\<close>, lines 315-317.\<close>

definition clearSearch :: "tree \<Rightarrow> tree" where
  "clearSearch t = collapseDeep (showDeep t)"

text \<open>
  Modelled from the spec: \<open>TreeNode.expand()\<close> and \<open>TreeNode.expandParents()\<close>
  (treenode.ts is not among the sources). Search "expands all of its ancestors (so matches
  are always reachable/visible)", and in the spec's scenario the parent of the only match
  "is not hidden (ancestor of a match, expanded)" although its own text does not match:
  expanding a node that is collapsed or hidden un-collapses it and shows it, with the
  event \<open>node.expanded\<close>. The ancestors are expanded from the parent up to the root.
\<close>

definition expand :: "nat list \<Rightarrow> tree \<Rightarrow> tree" where
  "expand p t =
     (case nodeAt (model t) p of
        None \<Rightarrow> t
      | Some n \<Rightarrow>
          if collapsed (itree n) \<or> hidden (itree n)
          then render ''applyChanges''
                 (emit ''node.expanded''
                    (t\<lparr>model := updateAt p (\<lambda>st. st\<lparr>collapsed := False, hidden := False\<rparr>) (model t)\<rparr>))
          else t)"

fun ancestors :: "nat list \<Rightarrow> nat list list" where
  "ancestors [] = []"
| "ancestors [k] = []"
| "ancestors p = butlast p # ancestors (butlast p)"

definition expandParents :: "nat list \<Rightarrow> tree \<Rightarrow> tree" where
  "expandParents p t = fold expand (ancestors p) t"

text \<open>
  The query of \<open>search\<close>: a falsy value other than the empty string (\<open>undefined\<close>,
  \<open>null\<close>, \<open>0\<close>, \<open>false\<close>), a string, a regular expression, a function. A regular
  expression is given by its \<open>test\<close>. The engine that compiles a string into a
  case-insensitive regular expression, \<open>new RegExp(query, 'i')\<close>, belongs to the
  JavaScript runtime: \<open>search\<close> takes it as the parameter \<open>regexp\<close>, \<open>None\<close> where the
  engine throws a SyntaxError.
\<close>

datatype query = QFalsy | QString string | QRegExp "string \<Rightarrow> bool" | QFunction "node \<Rightarrow> bool"

datatype search_result = Matches "string list" | TheTree | Delegated

text \<open>\<open>!query || (_.isString(query) && _.isEmpty(query))\<close>, line 1031.\<close>

fun isEmptyQuery :: "query \<Rightarrow> bool" where
  "isEmptyQuery QFalsy = True"
| "isEmptyQuery (QString s) = (s = [])"
| "isEmptyQuery (QRegExp test) = False"
| "isEmptyQuery (QFunction f) = False"

text \<open>The predicate of lines 1035-1047.\<close>

fun toPredicate :: "(string \<Rightarrow> (string \<Rightarrow> bool) option) \<Rightarrow> query \<Rightarrow> (node \<Rightarrow> bool) option" where
  "toPredicate regexp (QString s) = map_option (\<lambda>test n. test (nodeText n)) (regexp s)"
| "toPredicate regexp (QRegExp test) = Some (\<lambda>n. test (nodeText n))"
| "toPredicate regexp (QFunction f) = Some f"
| "toPredicate regexp QFalsy = Some (\<lambda>n. False)"

text \<open>The iteratee of the walk, lines 1051-1067, with the matches collected so far.\<close>

definition searchVisit :: "(node \<Rightarrow> bool) \<Rightarrow> nat list \<Rightarrow> tree \<times> string list \<Rightarrow> tree \<times> string list" where
  "searchVisit predicate p acc =
     (case acc of (t, matches) \<Rightarrow>
        (case nodeAt (model t) p of
           None \<Rightarrow> (t, matches)
         | Some n \<Rightarrow>
             if \<not> removed (itree n)
             then (let match = predicate n;
                       t1 = t\<lparr>model := updateAt p (\<lambda>st. st\<lparr>hidden := \<not> match\<rparr>) (model t)\<rparr>
                   in if match then (expandParents p t1, matches @ [nodeId n]) else (t1, matches))
             else (t, matches)))"

text \<open>
  \<open>search\<close>, lines 1006-1072. A configured custom search function is an external
  collaborator: the call is handed over to it (\<open>Delegated\<close>) and not followed further.
\<close>

definition search ::
  "(string \<Rightarrow> (string \<Rightarrow> bool) option) \<Rightarrow> query \<Rightarrow> tree \<Rightarrow> exception + (tree \<times> search_result)" where
  "search regexp query t =
     (if customSearch (config t) then Inr (t, Delegated)
      else if isEmptyQuery query then Inr (clearSearch t, TheTree)
      else (case toPredicate regexp query of
              None \<Rightarrow> Inl (SyntaxError ''Invalid regular expression'')
            | Some predicate \<Rightarrow>
                (case recurseDown (searchVisit predicate) (model t) (render ''batch'' t, []) of
                   (t1, matches) \<Rightarrow> Inr (render ''end'' t1, Matches matches))))"

text \<open>
  A stand-in for the engine on patterns without any regular-expression metacharacter,
  where \<open>new RegExp(pattern, 'i').test(text)\<close> says whether the text contains the
  pattern, letter case ignored (ASCII). Other patterns are outside the stand-in.
\<close>

definition isMeta :: "char \<Rightarrow> bool" where
  "isMeta c = (c \<in> set (CHR 0x5C # ''^$.|?*+()[]{}''))"

definition lower :: "char \<Rightarrow> char" where
  "lower c =
     (case map_of (zip ''ABCDEFGHIJKLMNOPQRSTUVWXYZ'' ''abcdefghijklmnopqrstuvwxyz'') c of
        Some l \<Rightarrow> l
      | None \<Rightarrow> c)"

fun startsWith :: "string \<Rightarrow> string \<Rightarrow> bool" where
  "startsWith [] s = True"
| "startsWith (c # p) [] = False"
| "startsWith (c # p) (d # s) = (c = d \<and> startsWith p s)"

fun containsStr :: "string \<Rightarrow> string \<Rightarrow> bool" where
  "containsStr p [] = startsWith p []"
| "containsStr p (d # s) = (startsWith p (d # s) \<or> containsStr p s)"

definition literalRegExp :: "string \<Rightarrow> (string \<Rightarrow> bool) option" where
  "literalRegExp pattern =
     (if list_ex isMeta pattern then None
      else Some (\<lambda>tx. containsStr (map lower pattern) (map lower tx)))"

text \<open>The tree of the spec's scenario: node 1 (A) with the child node 2 (B).\<close>

definition scenario :: "node list" where
  "scenario = [TreeNode ''1'' ''A'' defaultState [TreeNode ''2'' ''B'' defaultState []]]"

text \<open>
  What a search with a given text test leaves behind. \<open>matchAt\<close>: the node at a
  position is not removed and its text passes the test. \<open>searchMatches\<close>: the ids of
  the matching nodes among given positions, in their order. \<open>searchedState\<close>: the state
  of the node at a position once the positions \<open>visited\<close> have been walked: a node that
  was visited and is not removed has \<open>hidden\<close> set to whether its text fails the test,
  and a node with a visited match below it is un-collapsed and shown after that.
\<close>

definition matchAt :: "(string \<Rightarrow> bool) \<Rightarrow> node list \<Rightarrow> nat list \<Rightarrow> bool" where
  "matchAt test m p =
     (case nodeAt m p of None \<Rightarrow> False | Some n \<Rightarrow> \<not> removed (itree n) \<and> test (nodeText n))"

definition searchMatches :: "(string \<Rightarrow> bool) \<Rightarrow> node list \<Rightarrow> nat list list \<Rightarrow> string list" where
  "searchMatches test m ps =
     concat (map (\<lambda>p. case nodeAt m p of
                          None \<Rightarrow> []
                        | Some n \<Rightarrow> if matchAt test m p then [nodeId n] else []) ps)"

definition searchedState ::
  "(string \<Rightarrow> bool) \<Rightarrow> node list \<Rightarrow> nat list list \<Rightarrow> nat list \<Rightarrow> state option" where
  "searchedState test m visited p =
     map_option
       (\<lambda>n. let s = itree n;
                s1 = (if p \<in> set visited \<and> \<not> removed s
                      then s\<lparr>hidden := \<not> test (nodeText n)\<rparr> else s)
            in if list_ex (\<lambda>q. strict_prefix p q \<and> matchAt test m q) visited
               then s1\<lparr>collapsed := False, hidden := False\<rparr> else s1)
       (nodeAt m p)"

text \<open>
  Two more trees for the examples: a removed node with one child, and an expanded node
  with one hidden child.
\<close>

definition removedParent :: "node list" where
  "removedParent =
     [TreeNode ''1'' ''A'' (defaultState\<lparr>removed := True\<rparr>) [TreeNode ''2'' ''B'' defaultState []]]"

definition hiddenChild :: "node list" where
  "hiddenChild =
     [TreeNode ''1'' ''A'' (defaultState\<lparr>collapsed := False\<rparr>)
        [TreeNode ''2'' ''B'' (defaultState\<lparr>hidden := True\<rparr>) []]]"

section \<open>Theorems\<close>

subsection \<open>Events\<close>

lemma emit_unmuted: "muted t = MutedBool False \<Longrightarrow> trace (emit e t) = trace t @ [Dispatch e]"
  by (simp add: emit_def)

lemma emit_after_mute: "emit e (mute ev t) = mute ev t"
  by (cases ev) (simp_all add: emit_def muted_def)

lemma unmute_names_false_iff:
  "muted (unmute (EvArray ns) t) = MutedBool False \<longleftrightarrow> difference (muted t) ns = []"
  by (simp add: muted_def Let_def)

text \<open>
  C3. After \<open>mute(names)\<close> with specific event names only the named events should be
  suppressed, every other event still being emitted. The emitter tests the truthiness of
  \<open>_muted\<close> only, and an array of names is truthy: after
  \<open>mute(['node.selected'])\<close> the event \<open>node.expanded\<close> is not dispatched either.
\<close>

theorem mute_names_suppresses_every_event:
  "trace (emit ''node.expanded'' (mute (EvArray [''node.selected'']) (newTree defaultConfig))) = []"
  by (simp add: emit_def muted_def newTree_def)

subsection \<open>Parsing\<close>




text \<open>
  The string a parsed node gets for its id can be empty: the array \<open>[]\<close> is truthy and
  its \<open>toString()\<close> returns the empty string.
\<close>

lemma objectToModel_empty_array_id:
  "nodeId (fst (objectToModel (Raw (IdObject []) ''A'' noState []) (newTree defaultConfig))) = []"
  by (simp add: ensureId_def newTree_def Let_def)

subsection \<open>selectBetween\<close>

lemma entries_select:
  "nodeEntries anc (selectNode sel i inside n) = nodeEntries anc n"
  "forestEntries anc (selectForest sel i inside ns) = forestEntries anc ns"
  by (induction sel i inside n and sel i inside ns arbitrary: anc and anc rule: selectNode_selectForest.induct)
     (simp_all add: Let_def recompute_def)

lemma selectCalls_append: "selectCalls (xs @ ys) = selectCalls xs @ selectCalls ys"
  by (induction xs rule: selectCalls.induct) simp_all

lemma select_entries: "forestEntries anc (model (select i t)) = forestEntries anc (model t)"
  by (simp add: select_def Let_def emit_def entries_select split: option.splits)

lemma select_calls: "selectCalls (trace (select i t)) = selectCalls (trace t) @ [i]"
  by (simp add: select_def Let_def emit_def selectCalls_append split: option.splits)

lemma visibleAfter_split:
  assumes "distinct (map fst (forestEntries True m))"
    and "forestEntries True m = pre @ (x, v) # rest"
  shows "visibleAfter m x = map fst (filter snd rest)"
proof -
  have "\<forall>e \<in> set pre. fst e \<noteq> x" using assms by auto
  then have "dropWhile (\<lambda>e. fst e \<noteq> x) (pre @ (x, v) # rest) = (x, v) # rest"
    by (simp add: dropWhile_append3)
  then show ?thesis using assms(2) by (simp add: visibleAfter_def)
qed

lemma visibleAfter_absent:
  assumes "x \<notin> fst ` set (forestEntries True m)"
  shows "visibleAfter m x = []"
proof -
  have "\<forall>e \<in> set (forestEntries True m). fst e \<noteq> x"
    using assms by force
  then have dw: "dropWhile (\<lambda>e. fst e \<noteq> x) (forestEntries True m) = []"
    by simp
  show ?thesis unfolding visibleAfter_def dw by simp
qed

lemma selectLoop_run:
  assumes "distinct (map fst (forestEntries True (model t)))"
    and "forestEntries True (model t) = pre @ (x, v) # rest"
  shows "\<exists>t'. selectLoop e (nextVisibleNode (model t) x) t = Some t'
           \<and> selectCalls (trace t') =
               selectCalls (trace t) @ takeWhile (\<lambda>i. i \<noteq> e) (map fst (filter snd rest))"
  using assms
proof (induction rest arbitrary: pre x v t)
  case Nil
  then have "visibleAfter (model t) x = []" by (simp add: visibleAfter_split)
  then show ?case by (subst selectLoop.simps) (simp add: nextVisibleNode_def)
next
  case (Cons yw rest)
  obtain y w where yw: "yw = (y, w)" by (cases yw)
  have split': "forestEntries True (model t) = (pre @ [(x, v)]) @ (y, w) # rest"
    using Cons.prems(2) yw by simp
  have va: "visibleAfter (model t) x = map fst (filter snd ((y, w) # rest))"
    using visibleAfter_split [OF Cons.prems(1)] Cons.prems(2) yw by simp
  have vy: "visibleAfter (model t) y = map fst (filter snd rest)"
    using visibleAfter_split [OF Cons.prems(1) split'] .
  show ?case
  proof (cases w)
    case False
    then have "nextVisibleNode (model t) x = nextVisibleNode (model t) y"
      using va vy by (simp add: nextVisibleNode_def)
    then show ?thesis
      using Cons.IH [OF Cons.prems(1) split'] False yw by simp
  next
    case True
    then have nx: "nextVisibleNode (model t) x = Some y"
      using va by (simp add: nextVisibleNode_def)
    show ?thesis
    proof (cases "y = e")
      case True
      then show ?thesis using nx \<open>w\<close> yw by (subst selectLoop.simps) simp
    next
      case False
      let ?t1 = "select y t"
      have d1: "distinct (map fst (forestEntries True (model ?t1)))"
        using Cons.prems(1) by (simp add: select_entries)
      have s1: "forestEntries True (model ?t1) = (pre @ [(x, v)]) @ (y, w) # rest"
        using split' by (simp add: select_entries)
      from Cons.IH [OF d1 s1] obtain t' where
        run: "selectLoop e (nextVisibleNode (model ?t1) y) ?t1 = Some t'" and
        calls: "selectCalls (trace t') =
          selectCalls (trace ?t1) @ takeWhile (\<lambda>i. i \<noteq> e) (map fst (filter snd rest))"
        by blast
      have "selectLoop e (nextVisibleNode (model t) x) t = Some t'"
        using nx False run by (subst selectLoop.simps) (simp add: Let_def)
      moreover have "selectCalls (trace t') =
          selectCalls (trace t) @ takeWhile (\<lambda>i. i \<noteq> e) (map fst (filter snd (yw # rest)))"
        using calls False \<open>w\<close> yw by (simp add: select_calls)
      ultimately show ?thesis by blast
    qed
  qed
qed

lemma render_simps [simp]:
  "model (render name t) = model t"
  "selectCalls (trace (render name t)) = selectCalls (trace t)"
  by (simp_all add: render_def selectCalls_append)

text \<open>
  C1 (as the code has it). On a model whose ids are unique, \<open>selectBetween(start, end)\<close>
  returns, and the nodes it calls \<open>select()\<close> on are, in order, the visible nodes after
  \<open>start\<close> up to but excluding \<open>end\<close>: the loop breaks at \<open>end\<close> before selecting it.
\<close>

theorem selectBetween_calls:
  assumes "distinct (map fst (forestEntries True (model t)))"
  shows "\<exists>t'. selectBetween s e t = Some t'
           \<and> selectCalls (trace t') =
               selectCalls (trace t) @ takeWhile (\<lambda>i. i \<noteq> e) (visibleAfter (model t) s)
           \<and> e \<notin> set (takeWhile (\<lambda>i. i \<noteq> e) (visibleAfter (model t) s))"
proof -
  let ?t0 = "render ''batch'' t"
  have ne: "e \<notin> set (takeWhile (\<lambda>i. i \<noteq> e) (visibleAfter (model t) s))"
    by (auto dest: set_takeWhileD)
  have "\<exists>t1. selectLoop e (nextVisibleNode (model ?t0) s) ?t0 = Some t1
           \<and> selectCalls (trace t1) =
               selectCalls (trace ?t0) @ takeWhile (\<lambda>i. i \<noteq> e) (visibleAfter (model t) s)"
  proof (cases "s \<in> fst ` set (forestEntries True (model t))")
    case True
    then obtain v where "(s, v) \<in> set (forestEntries True (model t))" by auto
    then obtain pre rest where sp: "forestEntries True (model t) = pre @ (s, v) # rest"
      by (auto simp: in_set_conv_decomp)
    have d0: "distinct (map fst (forestEntries True (model ?t0)))" using assms by simp
    have s0: "forestEntries True (model ?t0) = pre @ (s, v) # rest" using sp by simp
    show ?thesis
      using selectLoop_run [OF d0 s0, of e] visibleAfter_split [OF assms sp] by simp
  next
    case False
    then have "visibleAfter (model t) s = []" by (rule visibleAfter_absent)
    then show ?thesis by (subst selectLoop.simps) (simp add: nextVisibleNode_def)
  qed
  then obtain t1 where
    run: "selectLoop e (nextVisibleNode (model ?t0) s) ?t0 = Some t1" and
    calls: "selectCalls (trace t1) =
      selectCalls (trace ?t0) @ takeWhile (\<lambda>i. i \<noteq> e) (visibleAfter (model t) s)"
    by blast
  have "selectBetween s e t = Some (render ''end'' t1)"
    using run by (simp add: selectBetween_def Let_def)
  then show ?thesis using calls ne by simp
qed

theorem selectBetween_calls_witness:
  "distinct (map fst (forestEntries True (model (treeOf abc))))
   \<and> (\<exists>t'. selectBetween ''a'' ''c'' (treeOf abc) = Some t' \<and> selectCalls (trace t') = [''b''])"
  using selectBetween_calls [of "treeOf abc" "''a''" "''c''"]
  by (simp add: abc_def treeOf_def leaf_def newTree_def defaultState_def visibleAfter_def)

text \<open>
  C1 as stated fails: with three visible roots a, b, c, \<open>selectBetween(a, b)\<close> calls
  \<open>select()\<close> on no node at all, although b is the visible node after a up to and
  including the end node b.
\<close>

theorem selectBetween_end_not_selected:
  "map_option (\<lambda>t'. selectCalls (trace t')) (selectBetween ''a'' ''b'' (treeOf abc)) = Some []
   \<and> visibleAfter (model (treeOf abc)) ''a'' = [''b'', ''c'']"
  by (simp add: selectBetween_def selectLoop.simps nextVisibleNode_def visibleAfter_def abc_def
      treeOf_def leaf_def newTree_def defaultState_def render_def Let_def)

subsection \<open>boundingNodes\<close>

lemma boundingNodes_two:
  "boundingNodes abc [''c'', ''a''] = Some (JNode ''a'', JNode ''c'')"
  by (simp add: boundingNodes_def indexPath_def removeDots_def sortBy_def abc_def leaf_def
      decimal.simps digit_def)

lemma boundingNodes_one:
  "boundingNodes abc [''b''] = Some (JNode ''b'', JUndefined)"
  by (simp add: boundingNodes_def indexPath_def removeDots_def sortBy_def abc_def leaf_def
      decimal.simps digit_def)

text \<open>
  C2. For the three roots a, b, c (index paths 0, 1, 2) the bounding nodes should be
  [a, c]. \<open>boundingNodes(a, b, c)\<close> returns a and \<open>undefined\<close>: the second element is
  looked up under \<open>_.tail(paths)\<close>, the array of all the paths but the first, not under
  the last path.
\<close>

theorem boundingNodes_three:
  "boundingNodes abc [''a'', ''b'', ''c''] = Some (JNode ''a'', JUndefined)"
  by (simp add: boundingNodes_def indexPath_def removeDots_def sortBy_def abc_def leaf_def
      decimal.simps digit_def)

subsection \<open>load\<close>

lemma loadSteps_append [simp]: "loadSteps (xs @ ys) = loadSteps xs @ loadSteps ys"
  by (simp add: loadSteps_def)

lemma emit_frame:
  "(emit e t)\<lparr>trace := tr\<rparr> = t\<lparr>trace := tr\<rparr>"
  by (simp add: emit_def)

lemma emit_loadSteps:
  "e \<noteq> ''data.loaded'' \<Longrightarrow> e \<noteq> ''model.loaded'' \<Longrightarrow> loadSteps (trace (emit e t)) = loadSteps (trace t)"
  by (simp add: emit_def loadSteps_def)

lemma loadEvents_fold_frame:
  "(fold (\<lambda>eventName u. if stateFlag eventName st then emit (''node.'' @ eventName) u else u) es t)
      \<lparr>trace := tr\<rparr> = t\<lparr>trace := tr\<rparr>
   \<and> loadSteps (trace (fold (\<lambda>eventName u. if stateFlag eventName st then emit (''node.'' @ eventName) u else u) es t))
      = loadSteps (trace t)"
  by (induction es arbitrary: t) (simp_all add: emit_frame emit_loadSteps)

lemma loadEvents_frame:
  "(loadEvents st t)\<lparr>trace := tr\<rparr> = t\<lparr>trace := tr\<rparr>"
  "loadSteps (trace (loadEvents st t)) = loadSteps (trace t)"
  using loadEvents_fold_frame [where st = st and es = "allowLoadEvents (config t)" and t = t and tr = tr]
  by (simp_all add: loadEvents_def)

lemma parse_frame:
  "(snd (objectToModel r t))\<lparr>trace := tr, cuidCount := k\<rparr> = t\<lparr>trace := tr, cuidCount := k\<rparr>
     \<and> loadSteps (trace (snd (objectToModel r t))) = loadSteps (trace t)"
  "(snd (collectionToModel rs t))\<lparr>trace := tr, cuidCount := k\<rparr> = t\<lparr>trace := tr, cuidCount := k\<rparr>
     \<and> loadSteps (trace (snd (collectionToModel rs t))) = loadSteps (trace t)"
  "(snd (eachToModel rs t))\<lparr>trace := tr, cuidCount := k\<rparr> = t\<lparr>trace := tr, cuidCount := k\<rparr>
     \<and> loadSteps (trace (snd (eachToModel rs t))) = loadSteps (trace t)"
proof (induction r t and rs t and rs t arbitrary: tr k and tr k and tr k
    rule: objectToModel_collectionToModel_eachToModel.induct)
  case (1 i tx rs cs t)
  show ?case
  proof (cases "cs = []")
    case True
    then show ?thesis
      by (simp add: Let_def loadEvents_frame split: prod.splits)
  next
    case False
    obtain s k1 where e: "ensureId i (cuidCount t) = (s, k1)" by (cases "ensureId i (cuidCount t)")
    have ih: "(snd (collectionToModel cs (t\<lparr>cuidCount := k1\<rparr>)))\<lparr>trace := tr, cuidCount := k\<rparr>
          = t\<lparr>cuidCount := k1\<rparr>\<lparr>trace := tr, cuidCount := k\<rparr>
        \<and> loadSteps (trace (snd (collectionToModel cs (t\<lparr>cuidCount := k1\<rparr>))))
          = loadSteps (trace (t\<lparr>cuidCount := k1\<rparr>))" for tr k
      using "1.IH" [OF refl e [symmetric] refl refl False] .
    show ?thesis
      using ih [where tr = tr and k = k] False
      by (simp add: e Let_def loadEvents_frame case_prod_beta)
  qed
next
  case (2 array t)
  then show ?case by simp
next
  case (3 t)
  show ?case by simp
next
  case (4 r rest t)
  obtain n t1 where o: "objectToModel r t = (n, t1)" by (cases "objectToModel r t")
  have a: "t1\<lparr>trace := tr, cuidCount := k\<rparr> = t\<lparr>trace := tr, cuidCount := k\<rparr>
      \<and> loadSteps (trace t1) = loadSteps (trace t)" for tr k
    using "4.IH"(1) [where tr = tr and k = k] o by simp
  have b: "(snd (eachToModel rest t1))\<lparr>trace := tr, cuidCount := k\<rparr> = t1\<lparr>trace := tr, cuidCount := k\<rparr>
      \<and> loadSteps (trace (snd (eachToModel rest t1))) = loadSteps (trace t1)" for tr k
    using "4.IH"(2) [OF o [symmetric] refl] .
  show ?case using a [where tr = tr and k = k] b [where tr = tr and k = k] by (simp add: o case_prod_beta)
qed



lemma loadEvents_config: "config (loadEvents st t) = config t"
proof -
  have "config ((loadEvents st t)\<lparr>trace := []\<rparr>) = config (t\<lparr>trace := []\<rparr>)"
    by (simp only: loadEvents_frame)
  then show ?thesis by simp
qed

lemma parse_config:
  "config (snd (objectToModel r t)) = config t"
  "config (snd (collectionToModel rs t)) = config t"
  "config (snd (eachToModel rs t)) = config t"
proof -
  have "config ((snd (objectToModel r t))\<lparr>trace := [], cuidCount := 0\<rparr>)
      = config (t\<lparr>trace := [], cuidCount := 0\<rparr>)"
    using parse_frame(1) [where r = r and t = t and tr = "[]" and k = 0] by simp
  then show "config (snd (objectToModel r t)) = config t" by simp
  have "config ((snd (collectionToModel rs t))\<lparr>trace := [], cuidCount := 0\<rparr>)
      = config (t\<lparr>trace := [], cuidCount := 0\<rparr>)"
    using parse_frame(2) [where rs = rs and t = t and tr = "[]" and k = 0] by simp
  then show "config (snd (collectionToModel rs t)) = config t" by simp
  have "config ((snd (eachToModel rs t))\<lparr>trace := [], cuidCount := 0\<rparr>)
      = config (t\<lparr>trace := [], cuidCount := 0\<rparr>)"
    using parse_frame(3) [where rs = rs and t = t and tr = "[]" and k = 0] by simp
  then show "config (snd (eachToModel rs t)) = config t" by simp
qed


lemma select_frame:
  "initialized (select i t) = initialized t"
  "muted_field (select i t) = muted_field t"
  "config (select i t) = config t"
  "domScrolls (select i t) = domScrolls t"
  "timers (select i t) = timers t"
  by (simp_all add: select_def Let_def emit_def split: option.splits)


lemma selectFirst_frame:
  "initialized (selectFirstAvailableNode t) = initialized t"
  "muted_field (selectFirstAvailableNode t) = muted_field t"
  "config (selectFirstAvailableNode t) = config t"
  "domScrolls (selectFirstAvailableNode t) = domScrolls t"
  "timers (selectFirstAvailableNode t) = timers t"
  by (simp_all add: selectFirstAvailableNode_def select_frame split: option.splits)













text \<open>
  The other sources that are no array, function or promise-like object. A string with a
  character in it is array-like: \<open>complete\<close> runs on it, \<open>data.loaded\<close> is emitted
  and a model with a node in it is removed before the parse raises and the promise
  rejects, again with no \<open>data.loaderror\<close>. The empty string resolves with an empty
  model. An object with no \<open>then\<close> leaves the promise pending. A promise-like object that
  resolves with a string empties the model too, and then goes through \<open>error\<close>.
\<close>

lemma load_string:
  "s \<noteq> [] \<Longrightarrow>
     snd (loadAll (LString s) t) = Rejected assignmentTypeError
     \<and> model (fst (loadAll (LString s) t)) = []
     \<and> trace (fst (loadAll (LString s) t)) =
         trace (emit ''data.loaded'' t) @ (if model t = [] then [] else [Render ''applyChanges''])"
  by (simp add: loadAll_def complete_def Let_def throwOut_def emitOrDefer_def emit_def
      removeAll_def render_def)

lemma load_string_example:
  "snd (loadAll (LString ''xy'') (treeOf abc)) = Rejected assignmentTypeError
   \<and> model (fst (loadAll (LString ''xy'') (treeOf abc))) = []
   \<and> trace (fst (loadAll (LString ''xy'') (treeOf abc))) =
       [Dispatch ''data.loaded'', Render ''applyChanges'']"
  by (simp add: loadAll_def complete_def Let_def throwOut_def emitOrDefer_def emit_def
      removeAll_def render_def treeOf_def newTree_def muted_def abc_def)

lemma load_empty_string:
  "snd (loadAll (LString []) (treeOf abc)) = Resolved []"
  by (simp add: loadAll_def complete_def Let_def throwOut_def emitOrDefer_def emit_def
      removeAll_def render_def treeOf_def newTree_def muted_def resolve_def defaultConfig_def
      defaultSelection_def)

lemma load_object: "loadAll LObject t = (t, Pending)"
  by (simp add: loadAll_def)

lemma load_resolves_string:
  "snd (loadAll (LThenable (Resolves (NString ''xy''))) (treeOf abc)) = Rejected assignmentTypeError
   \<and> model (fst (loadAll (LThenable (Resolves (NString ''xy''))) (treeOf abc))) = []
   \<and> trace (fst (loadAll (LThenable (Resolves (NString ''xy''))) (treeOf abc))) =
       [Dispatch ''data.loaded'', Render ''applyChanges'', Dispatch ''data.loaderror'',
        Reject assignmentTypeError]"
  by (simp add: loadAll_def complete_def Let_def error_def reject_def emitOrDefer_def emit_def
      removeAll_def render_def treeOf_def newTree_def muted_def abc_def)

subsection \<open>The constructor\<close>



lemma config_simps:
  "config (render name t) = config t"
  "config (emit e t) = config t"
  "config (emitOrDefer a e t) = config t"
  "config (removeAll t) = config t"
  by (simp_all add: render_def emit_def emitOrDefer_def removeAll_def)

lemma complete_config: "config (fst (fst (complete nodes tp))) = config (fst tp)"
  by (cases tp; cases nodes)
    (simp_all add: complete_def Let_def case_prod_beta config_simps parse_config selectFirst_frame
      resolve_def del: collectionToModel.simps)

lemma error_config: "config (fst (error err tp)) = config (fst tp)"
  by (cases tp) (simp add: error_def reject_def config_simps)

lemma runCalls_config: "config (fst (fst (runCalls calls tp))) = config (fst tp)"
proof (induction calls tp rule: runCalls.induct)
  case (1 tp)
  show ?case by simp
next
  case (2 nodes calls tp)
  obtain tp1 x where c: "complete nodes tp = (tp1, x)" by (cases "complete nodes tp")
  have "config (fst tp1) = config (fst tp)" using complete_config [of nodes tp] c by simp
  then show ?case using 2 c by (cases x) simp_all
next
  case (3 err calls tp)
  then show ?case by (simp add: error_config)
qed

lemma throwOut_config: "config (fst (throwOut e tp)) = config (fst tp)"
  by (cases tp) (simp add: throwOut_def)

lemma load_config: "config (fst (load loader t)) = config t"
proof (cases loader)
  case (LArray ns)
  then show ?thesis using complete_config [of "NArray ns" "(t, Pending)"]
    by (auto simp: throwOut_config split: prod.splits option.splits)
next
  case (LArrayLike ns)
  then show ?thesis using complete_config [of "NArrayLike ns" "(t, Pending)"]
    by (auto simp: throwOut_config split: prod.splits option.splits)
next
  case (LString s)
  then show ?thesis using complete_config [of "NString s" "(t, Pending)"]
    by (auto simp: throwOut_config split: prod.splits option.splits)
next
  case (LFunction calls e)
  then show ?thesis using runCalls_config [of calls "(t, Pending)"]
    by (cases e) (auto simp: throwOut_config split: prod.splits option.splits)
qed (simp_all add: throwOut_def)

lemma forceSelection_ok:
  "(mode (selection (forceSelection opts c)) = ''checkbox'' \<longrightarrow>
      autoSelectChildren (selection (forceSelection opts c))
      \<and> \<not> autoDeselect (selection (forceSelection opts c)))
   \<and> (autoSelectChildren (selection (forceSelection opts c)) \<longrightarrow>
      multiple (selection (forceSelection opts c)))"
  by (simp add: forceSelection_def Let_def)

lemma constructor_config:
  "constructor DOM scrolls opts = Inr (t, p, w) \<Longrightarrow> config t = forceSelection opts (defaultsDeep opts)"
proof -
  assume a: "constructor DOM scrolls opts = Inr (t, p, w)"
  then obtain d where d: "optData opts = Some d"
    by (cases "optData opts") (simp_all add: constructor_def)
  let ?c = "forceSelection opts (defaultsDeep opts)"
  let ?t0 = "render ''attach'' ((newTree ?c)\<lparr>allowsLoadEvents := (length (allowLoadEvents ?c) > 0),
      isDynamic := isFunctionLoader d, domScrolls := scrolls\<rparr>)"
  have "t = (fst (load d ?t0))\<lparr>initialized := True\<rparr>"
    using a d by (auto simp: constructor_def Let_def split: if_splits prod.splits)
  then have "config t = config ?t0" by (simp add: load_config)
  then show ?thesis by (simp add: config_simps newTree_def)
qed

text \<open>
  C10. In the configuration of a constructed tree, checkbox mode comes with
  \<open>autoSelectChildren = true\<close> and \<open>autoDeselect = false\<close>, and
  \<open>autoSelectChildren = true\<close> comes with \<open>multiple = true\<close>, whatever the caller passed.
\<close>

theorem constructor_selection:
  assumes "constructor DOM scrolls opts = Inr (t, p, w)"
  shows "(mode (selection (config t)) = ''checkbox'' \<longrightarrow>
            autoSelectChildren (selection (config t)) \<and> \<not> autoDeselect (selection (config t)))
         \<and> (autoSelectChildren (selection (config t)) \<longrightarrow> multiple (selection (config t)))"
  using forceSelection_ok [of opts "defaultsDeep opts"] constructor_config [OF assms] by simp

theorem constructor_selection_witness:
  "\<not> isl (constructor False False checkboxOpts)
   \<and> mode (selection (config (fst (projr (constructor False False checkboxOpts))))) = ''checkbox''
   \<and> autoSelectChildren (selection (config (fst (projr (constructor False False checkboxOpts)))))
   \<and> \<not> autoDeselect (selection (config (fst (projr (constructor False False checkboxOpts)))))
   \<and> multiple (selection (config (fst (projr (constructor False False checkboxOpts)))))"
proof -
  obtain t p w where c: "constructor False False checkboxOpts = Inr (t, p, w)"
    by (cases "constructor False False checkboxOpts")
      (auto simp: constructor_def checkboxOpts_def dataOnly_def Let_def split: prod.splits)
  have m: "mode (selection (config t)) = ''checkbox''"
    using constructor_config [OF c]
    by (simp add: forceSelection_def defaultsDeep_def checkboxOpts_def dataOnly_def noSelection_def
        orDefault_def Let_def)
  show ?thesis using constructor_selection [OF c] m by (simp add: c)
qed

subsection \<open>Walks: clearSearch and search\<close>

lemma length_updateAt [simp]: "length (updateAt p f m) = length m"
  by (induction p f m rule: updateAt.induct) simp_all

lemma node_collapse: "TreeNode (nodeId n) (nodeText n) (itree n) (children n) = n"
  by (cases n) simp

lemma updateAt_id:
  "(\<And>s. stateAt m p = Some s \<Longrightarrow> f s = s) \<Longrightarrow> updateAt p f m = m"
proof (induction p f m rule: updateAt.induct)
  case (1 f m)
  show ?case by simp
next
  case (2 k f m)
  then show ?case by (simp add: stateAt_def node_collapse)
next
  case (3 k j p f m)
  show ?case
  proof (cases "k < length m")
    case True
    have "updateAt (j # p) f (children (m ! k)) = children (m ! k)"
      using "3.IH" [OF True] "3.prems" True by (simp add: stateAt_def)
    then show ?thesis using True by (simp add: node_collapse)
  next
    case False
    then show ?thesis by simp
  qed
qed

lemma nodeAt_updateAt:
  "map_option itree (nodeAt (updateAt p f m) q) =
     (if q = p then map_option (\<lambda>n. f (itree n)) (nodeAt m q) else map_option itree (nodeAt m q))"
  "map_option nodeId (nodeAt (updateAt p f m) q) = map_option nodeId (nodeAt m q)"
  "map_option nodeText (nodeAt (updateAt p f m) q) = map_option nodeText (nodeAt m q)"
proof (induction p f m arbitrary: q rule: updateAt.induct)
  case (1 f m)
  { case 1 show ?case by simp }
  { case 2 show ?case by simp }
  { case 3 show ?case by simp }
next
  case (2 k f m)
  { case 1 show ?case by (cases q rule: ancestors.cases) (auto simp: nth_list_update) }
  { case 2 show ?case by (cases q rule: ancestors.cases) (auto simp: nth_list_update) }
  { case 3 show ?case by (cases q rule: ancestors.cases) (auto simp: nth_list_update) }
next
  case (3 k j p f m)
  { case 1 show ?case using "3.IH"(1) by (cases q rule: ancestors.cases) (auto simp: nth_list_update) }
  { case 2 show ?case using "3.IH"(2) by (cases q rule: ancestors.cases) (auto simp: nth_list_update) }
  { case 3 show ?case using "3.IH"(3) by (cases q rule: ancestors.cases) (auto simp: nth_list_update) }
qed

lemma forestPaths_Cons:
  "forestPaths k (n # ns) = [k] # map ((#) k) (forestPaths 0 (children n)) @ forestPaths (Suc k) ns"
  by (cases n) simp

lemma forestPaths_list_update:
  "forestPaths 0 (children n') = forestPaths 0 (children (m ! j)) \<Longrightarrow>
     forestPaths k (m[j := n']) = forestPaths k m"
proof (induction m arbitrary: j k)
  case Nil
  show ?case by simp
next
  case (Cons a m)
  show ?case
  proof (cases j)
    case 0
    then show ?thesis using Cons.prems by (simp add: forestPaths_Cons)
  next
    case (Suc j')
    then show ?thesis using Cons.prems Cons.IH [of j' "Suc k"] by (simp add: forestPaths_Cons)
  qed
qed

lemma forestPaths_updateAt [simp]: "forestPaths k (updateAt p f m) = forestPaths k m"
proof (induction p f m arbitrary: k rule: updateAt.induct)
  case (1 f m)
  show ?case by simp
next
  case (2 j f m)
  show ?case by (simp add: forestPaths_list_update)
next
  case (3 j i p f m)
  show ?case using "3.IH" by (simp add: forestPaths_list_update)
qed

lemma set_forestPaths:
  "p \<in> set (forestPaths k m) \<longleftrightarrow>
     (\<exists>i r. p = (k + i) # r \<and> i < length m
        \<and> (r = [] \<or> r \<in> set (forestPaths 0 (children (m ! i)))))"
proof (induction m arbitrary: k)
  case Nil
  show ?case by simp
next
  case (Cons n ns)
  show ?case (is "?L \<longleftrightarrow> ?R")
  proof
    assume ?L
    then consider "p = [k]" | r where "p = k # r" "r \<in> set (forestPaths 0 (children n))"
      | "p \<in> set (forestPaths (Suc k) ns)"
      by (auto simp: forestPaths_Cons)
    then show ?R
    proof cases
      case 1
      then show ?thesis by (intro exI [of _ 0] exI [of _ "[]"]) simp
    next
      case (2 r)
      then show ?thesis by (intro exI [of _ 0] exI [of _ r]) simp
    next
      case 3
      then obtain i r where "p = (Suc k + i) # r" "i < length ns"
        "r = [] \<or> r \<in> set (forestPaths 0 (children (ns ! i)))"
        using Cons.IH [of "Suc k"] by blast
      then show ?thesis by (intro exI [of _ "Suc i"] exI [of _ r]) simp
    qed
  next
    assume ?R
    then obtain i r where ir: "p = (k + i) # r" "i < length (n # ns)"
      "r = [] \<or> r \<in> set (forestPaths 0 (children ((n # ns) ! i)))"
      by blast
    show ?L
    proof (cases i)
      case 0
      then show ?thesis using ir by (auto simp: forestPaths_Cons)
    next
      case (Suc i')
      then have "p \<in> set (forestPaths (Suc k) ns)"
        using ir Cons.IH [of "Suc k"] by auto
      then show ?thesis by (simp add: forestPaths_Cons)
    qed
  qed
qed

lemma nodeAt_iff: "nodeAt m p \<noteq> None \<longleftrightarrow> p \<in> set (forestPaths 0 m)"
proof (induction m p rule: nodeAt.induct)
  case (1 m)
  show ?case by (subst set_forestPaths) simp
next
  case (2 m k)
  show ?case by (subst set_forestPaths) simp
next
  case (3 m k j p)
  show ?case
  proof (cases "k < length m")
    case True
    then show ?thesis using "3.IH" [OF True] by (subst set_forestPaths) simp
  next
    case False
    then show ?thesis by (subst set_forestPaths) simp
  qed
qed

lemma stateAt_updateAt:
  "stateAt (updateAt p f m) q = (if q = p then map_option f (stateAt m q) else stateAt m q)"
  using nodeAt_updateAt(1) [of p f m q] by (simp add: stateAt_def option.map_comp comp_def)

lemma model_simps [simp]:
  "model (render name t) = model t"
  "model (emit e t) = model t"
  by (simp_all add: render_def emit_def)

lemma show_model: "model (show p t) = updateAt p (\<lambda>s. s\<lparr>hidden := False\<rparr>) (model t)"
proof (cases "nodeAt (model t) p")
  case None
  then have "updateAt p (\<lambda>s. s\<lparr>hidden := False\<rparr>) (model t) = model t"
    by (intro updateAt_id) (simp add: stateAt_def)
  then show ?thesis using None by (simp add: show_def baseStateChange_def)
next
  case (Some n)
  show ?thesis
  proof (cases "hidden (itree n)")
    case True
    have "setFlag ''hidden'' False = (\<lambda>s. s\<lparr>hidden := False\<rparr>)"
      by (rule ext) (simp add: setFlag_def)
    then show ?thesis using Some True
      by (simp add: show_def baseStateChange_def stateFlag_def Let_def)
  next
    case False
    then have "updateAt p (\<lambda>s. s\<lparr>hidden := False\<rparr>) (model t) = model t"
      using Some by (intro updateAt_id) (auto simp: stateAt_def)
    then show ?thesis using Some False
      by (simp add: show_def baseStateChange_def stateFlag_def)
  qed
qed

lemma collapse_model: "model (collapse p t) = updateAt p (\<lambda>s. s\<lparr>collapsed := True\<rparr>) (model t)"
proof (cases "nodeAt (model t) p")
  case None
  then have "updateAt p (\<lambda>s. s\<lparr>collapsed := True\<rparr>) (model t) = model t"
    by (intro updateAt_id) (simp add: stateAt_def)
  then show ?thesis using None by (simp add: collapse_def baseStateChange_def)
next
  case (Some n)
  show ?thesis
  proof (cases "collapsed (itree n)")
    case False
    have "setFlag ''collapsed'' True = (\<lambda>s. s\<lparr>collapsed := True\<rparr>)"
      by (rule ext) (simp add: setFlag_def)
    then show ?thesis using Some False
      by (simp add: collapse_def baseStateChange_def stateFlag_def Let_def)
  next
    case True
    then have "updateAt p (\<lambda>s. s\<lparr>collapsed := True\<rparr>) (model t) = model t"
      using Some by (intro updateAt_id) (auto simp: stateAt_def)
    then show ?thesis using Some True
      by (simp add: collapse_def baseStateChange_def stateFlag_def)
  qed
qed

lemma fold_method_model:
  assumes "\<And>p t. model (method p t) = updateAt p g (model t)"
  shows "model (fold method ps t) = fold (\<lambda>p. updateAt p g) ps (model t)"
  by (induction ps arbitrary: t) (simp_all add: assms)

lemma fold_updateAt_paths [simp]:
  "forestPaths k (fold (\<lambda>p. updateAt p g) ps m) = forestPaths k m"
  by (induction ps arbitrary: m) simp_all

lemma fold_updateAt_state:
  assumes "\<And>s. g (g s) = g s"
  shows "stateAt (fold (\<lambda>p. updateAt p g) ps m) q =
           (if q \<in> set ps then map_option g (stateAt m q) else stateAt m q)"
proof (induction ps arbitrary: m)
  case Nil
  show ?case by simp
next
  case (Cons p ps)
  show ?case
    by (simp add: Cons.IH stateAt_updateAt option.map_comp comp_def assms)
qed

lemma invokeDeep_model:
  assumes "\<And>p t. model (method p t) = updateAt p g (model t)"
  shows "model (baseInvokeDeep [method] t) = fold (\<lambda>p. updateAt p g) (forestPaths 0 (model t)) (model t)"
proof -
  have "model (fold method ps u) = fold (\<lambda>p. updateAt p g) ps (model u)" for ps u
    by (rule fold_method_model) (rule assms)
  then show ?thesis by (simp add: baseInvokeDeep_def recurseDown_def)
qed

lemma stateAt_paths: "p \<notin> set (forestPaths 0 m) \<Longrightarrow> stateAt m p = None"
  using nodeAt_iff [of m p] by (simp add: stateAt_def)

lemma clearSearch_state:
  "stateAt (model (clearSearch t)) p =
     map_option (\<lambda>s. s\<lparr>hidden := False, collapsed := True\<rparr>) (stateAt (model t) p)"
  "forestPaths 0 (model (clearSearch t)) = forestPaths 0 (model t)"
proof -
  let ?m = "model t"
  let ?ps = "forestPaths 0 ?m"
  have sh: "model (showDeep t) = fold (\<lambda>p. updateAt p (\<lambda>s. s\<lparr>hidden := False\<rparr>)) ?ps ?m"
    unfolding showDeep_def by (rule invokeDeep_model) (rule show_model)
  have ps: "forestPaths 0 (model (showDeep t)) = ?ps" by (simp add: sh)
  have cl: "model (clearSearch t) =
      fold (\<lambda>p. updateAt p (\<lambda>s. s\<lparr>collapsed := True\<rparr>)) ?ps (model (showDeep t))"
    unfolding clearSearch_def collapseDeep_def
    using invokeDeep_model [of collapse "\<lambda>s. s\<lparr>collapsed := True\<rparr>" "showDeep t"] collapse_model ps
    by simp
  show "forestPaths 0 (model (clearSearch t)) = ?ps" by (simp add: cl ps)
  show "stateAt (model (clearSearch t)) p =
     map_option (\<lambda>s. s\<lparr>hidden := False, collapsed := True\<rparr>) (stateAt ?m p)"
  proof (cases "p \<in> set ?ps")
    case True
    then show ?thesis
      by (simp add: cl sh fold_updateAt_state option.map_comp comp_def)
  next
    case False
    then show ?thesis
      by (simp add: cl sh fold_updateAt_state stateAt_paths)
  qed
qed

lemma forestPaths_head: "p \<in> set (forestPaths k m) \<Longrightarrow> \<exists>j r. p = j # r \<and> k \<le> j"
  by (subst (asm) set_forestPaths) auto

lemma forestPaths_sorted: "sorted_wrt ord_class.lexordp (forestPaths k m)"
proof (induction k m rule: forestPaths.induct)
  case (1 k)
  show ?case by simp
next
  case (2 k i tx st cs ns)
  have a: "ord_class.lexordp [k] (k # y)" if "y \<in> set (forestPaths 0 cs)" for y
    using forestPaths_head [OF that] by auto
  have b: "ord_class.lexordp [k] y" if "y \<in> set (forestPaths (Suc k) ns)" for y
    using forestPaths_head [OF that] by auto
  have c: "sorted_wrt ord_class.lexordp (map ((#) k) (forestPaths 0 cs))"
    using "2.IH"(1) by (simp add: sorted_wrt_map)
  have d: "ord_class.lexordp (k # x) y" if "y \<in> set (forestPaths (Suc k) ns)" for x y
    using forestPaths_head [OF that] by auto
  have "sorted_wrt ord_class.lexordp (map ((#) k) (forestPaths 0 cs) @ forestPaths (Suc k) ns)"
    unfolding sorted_wrt_append using c "2.IH"(2) d by auto
  moreover have "\<forall>y \<in> set (map ((#) k) (forestPaths 0 cs) @ forestPaths (Suc k) ns).
      ord_class.lexordp [k] y"
    using a b by auto
  ultimately show ?case
    unfolding forestPaths.simps sorted_wrt.simps by blast
qed

lemma lexordp_not_prefix: "ord_class.lexordp p q \<Longrightarrow> \<not> prefix q (p :: nat list)"
proof
  assume l: "ord_class.lexordp p q" and "prefix q p"
  then obtain v where "p = q @ v" by (auto simp: prefix_def)
  then have "ord_class.lexordp_eq q p" by (simp add: lexordp_eq_pref)
  then show False using l by (simp add: lexordp_conv_lexordp_eq)
qed

lemma preorder_fresh:
  assumes "forestPaths 0 m = visited @ q # todo" and "p \<in> set visited"
  shows "\<not> prefix q p"
proof -
  have "sorted_wrt ord_class.lexordp (visited @ q # todo)"
    using forestPaths_sorted [of 0 m] assms(1) by simp
  then have "ord_class.lexordp p q"
    using assms(2) by (simp add: sorted_wrt_append)
  then show ?thesis by (rule lexordp_not_prefix)
qed

lemma ancestors_snoc: "ancestors (ys @ [y]) = (if ys = [] then [] else ys # ancestors ys)"
proof (cases ys)
  case Nil
  then show ?thesis by simp
next
  case (Cons a ys')
  then show ?thesis by (cases ys') simp_all
qed

lemma strict_prefix_snoc_iff: "strict_prefix r (ys @ [y]) \<longleftrightarrow> prefix r ys"
proof
  assume "strict_prefix r (ys @ [y])"
  then show "prefix r ys" by (auto simp: strict_prefix_def)
next
  assume p: "prefix r ys"
  then have "length r \<le> length ys" by (rule prefix_length_le)
  then have "r \<noteq> ys @ [y]" by auto
  then show "strict_prefix r (ys @ [y])" using p by (simp add: strict_prefix_def)
qed

lemma set_ancestors: "r \<in> set (ancestors q) \<longleftrightarrow> strict_prefix r q \<and> r \<noteq> []"
proof (induction q rule: rev_induct)
  case Nil
  show ?case by simp
next
  case (snoc y ys)
  have sp: "strict_prefix r (ys @ [y]) \<longleftrightarrow> r = ys \<or> strict_prefix r ys"
    unfolding strict_prefix_snoc_iff by (auto simp: strict_prefix_def)
  show ?case
  proof (cases "ys = []")
    case True
    have "r \<in> set (ancestors (ys @ [y])) \<longleftrightarrow> False"
      unfolding ancestors_snoc using True by simp
    moreover have "strict_prefix r (ys @ [y]) \<and> r \<noteq> [] \<longleftrightarrow> False"
      unfolding sp using True by auto
    ultimately show ?thesis by blast
  next
    case False
    have "r \<in> set (ancestors (ys @ [y])) \<longleftrightarrow> r = ys \<or> r \<in> set (ancestors ys)"
      unfolding ancestors_snoc using False by simp
    also have "\<dots> \<longleftrightarrow> r = ys \<or> (strict_prefix r ys \<and> r \<noteq> [])"
      unfolding snoc.IH ..
    also have "\<dots> \<longleftrightarrow> strict_prefix r (ys @ [y]) \<and> r \<noteq> []"
      unfolding sp using False by blast
    finally show ?thesis .
  qed
qed

lemma expand_model:
  "model (expand r t) = updateAt r (\<lambda>s. s\<lparr>collapsed := False, hidden := False\<rparr>) (model t)"
proof (cases "nodeAt (model t) r")
  case None
  then have "updateAt r (\<lambda>s. s\<lparr>collapsed := False, hidden := False\<rparr>) (model t) = model t"
    by (intro updateAt_id) (simp add: stateAt_def)
  then show ?thesis using None by (simp add: expand_def)
next
  case (Some n)
  show ?thesis
  proof (cases "collapsed (itree n) \<or> hidden (itree n)")
    case True
    then show ?thesis using Some by (simp add: expand_def)
  next
    case False
    then have "updateAt r (\<lambda>s. s\<lparr>collapsed := False, hidden := False\<rparr>) (model t) = model t"
      using Some by (intro updateAt_id) (auto simp: stateAt_def)
    then show ?thesis using Some False by (simp add: expand_def)
  qed
qed

lemma expandParents_model:
  "model (expandParents q t) =
     fold (\<lambda>r. updateAt r (\<lambda>s. s\<lparr>collapsed := False, hidden := False\<rparr>)) (ancestors q) (model t)"
  unfolding expandParents_def by (rule fold_method_model) (rule expand_model)

lemma fold_updateAt_node:
  "map_option nodeId (nodeAt (fold (\<lambda>r. updateAt r g) rs m) p) = map_option nodeId (nodeAt m p)"
  "map_option nodeText (nodeAt (fold (\<lambda>r. updateAt r g) rs m) p) = map_option nodeText (nodeAt m p)"
  by (induction rs arbitrary: m) (simp_all add: nodeAt_updateAt)

lemma searchVisit_model:
  "model (fst (searchVisit (\<lambda>n. test (nodeText n)) q (t, ms))) =
     (case nodeAt (model t) q of
        None \<Rightarrow> model t
      | Some n \<Rightarrow>
          if removed (itree n) then model t
          else if test (nodeText n)
          then fold (\<lambda>r. updateAt r (\<lambda>s. s\<lparr>collapsed := False, hidden := False\<rparr>)) (ancestors q)
                 (updateAt q (\<lambda>s. s\<lparr>hidden := False\<rparr>) (model t))
          else updateAt q (\<lambda>s. s\<lparr>hidden := True\<rparr>) (model t))"
  by (simp add: searchVisit_def Let_def expandParents_model split: option.splits)

lemma searchVisit_matches:
  "snd (searchVisit (\<lambda>n. test (nodeText n)) q (t, ms)) =
     ms @ (case nodeAt (model t) q of
             None \<Rightarrow> []
           | Some n \<Rightarrow> if \<not> removed (itree n) \<and> test (nodeText n) then [nodeId n] else [])"
  by (simp add: searchVisit_def Let_def split: option.splits)

lemma searchedState_fresh:
  assumes "\<And>x. x \<in> set visited \<Longrightarrow> \<not> prefix q x"
  shows "searchedState test m visited q = stateAt m q"
proof -
  have "q \<notin> set visited" using assms by auto
  moreover have "\<not> list_ex (\<lambda>x. strict_prefix q x \<and> matchAt test m x) visited"
    using assms by (auto simp: list_ex_iff strict_prefix_def)
  ultimately show ?thesis
    by (simp add: searchedState_def stateAt_def Let_def cong: option.map_cong)
qed

lemma searchedState_snoc:
  assumes "\<And>x. x \<in> set visited \<Longrightarrow> \<not> prefix q x"
  shows "searchedState test m (visited @ [q]) p =
     (if p = q
      then map_option (\<lambda>n. if \<not> removed (itree n)
                            then (itree n)\<lparr>hidden := \<not> test (nodeText n)\<rparr>
                            else itree n) (nodeAt m q)
      else if strict_prefix p q \<and> matchAt test m q
           then map_option (\<lambda>s. s\<lparr>collapsed := False, hidden := False\<rparr>)
                  (searchedState test m visited p)
           else searchedState test m visited p)"
proof (cases "p = q")
  case True
  have "\<not> list_ex (\<lambda>x. strict_prefix q x \<and> matchAt test m x) (visited @ [q])"
    using assms by (auto simp: list_ex_iff strict_prefix_def)
  then show ?thesis using True
    by (simp add: searchedState_def Let_def cong: option.map_cong)
next
  case False
  have mem: "p \<in> set (visited @ [q]) \<longleftrightarrow> p \<in> set visited" using False by simp
  have ex: "list_ex (\<lambda>x. strict_prefix p x \<and> matchAt test m x) (visited @ [q]) \<longleftrightarrow>
      list_ex (\<lambda>x. strict_prefix p x \<and> matchAt test m x) visited
      \<or> (strict_prefix p q \<and> matchAt test m q)"
    by (auto simp: list_ex_iff)
  show ?thesis
  proof (cases "strict_prefix p q \<and> matchAt test m q")
    case True
    then show ?thesis using False
      by (cases "list_ex (\<lambda>x. strict_prefix p x \<and> matchAt test m x) visited")
        (simp_all add: searchedState_def mem ex Let_def option.map_comp comp_def)
  next
    case nm: False
    then show ?thesis using False
      by (cases "list_ex (\<lambda>x. strict_prefix p x \<and> matchAt test m x) visited")
        (auto simp: searchedState_def mem ex Let_def option.map_comp comp_def)
  qed
qed

lemma searchedState_root: "searchedState test m visited [] = None"
  by (simp add: searchedState_def)

lemma searchVisit_step:
  assumes st: "\<And>p. stateAt (model t) p = searchedState test m0 visited p"
    and tx: "\<And>p. map_option nodeText (nodeAt (model t) p) = map_option nodeText (nodeAt m0 p)"
    and ids: "\<And>p. map_option nodeId (nodeAt (model t) p) = map_option nodeId (nodeAt m0 p)"
    and fresh: "\<And>x. x \<in> set visited \<Longrightarrow> \<not> prefix q x"
  shows "stateAt (model (fst (searchVisit (\<lambda>n. test (nodeText n)) q (t, ms)))) p =
           searchedState test m0 (visited @ [q]) p"
    and "map_option nodeText (nodeAt (model (fst (searchVisit (\<lambda>n. test (nodeText n)) q (t, ms)))) p) =
           map_option nodeText (nodeAt m0 p)"
    and "map_option nodeId (nodeAt (model (fst (searchVisit (\<lambda>n. test (nodeText n)) q (t, ms)))) p) =
           map_option nodeId (nodeAt m0 p)"
    and "snd (searchVisit (\<lambda>n. test (nodeText n)) q (t, ms)) = ms @ searchMatches test m0 [q]"
proof -
  let ?e = "\<lambda>s. s\<lparr>collapsed := False, hidden := False\<rparr>"
  let ?M = "model (fst (searchVisit (\<lambda>n. test (nodeText n)) q (t, ms)))"
  have sq: "stateAt (model t) q = stateAt m0 q"
    using st [of q] searchedState_fresh [of visited q test m0] fresh by simp
  have idem: "?e (?e s) = ?e s" for s :: state by simp
  have anc: "p \<in> set (ancestors q) \<longleftrightarrow> strict_prefix p q \<and> p \<noteq> []"
    by (rule set_ancestors)
  show "map_option nodeText (nodeAt ?M p) = map_option nodeText (nodeAt m0 p)"
    using tx [of p]
    by (simp add: searchVisit_model fold_updateAt_node nodeAt_updateAt split: option.splits)
  show "map_option nodeId (nodeAt ?M p) = map_option nodeId (nodeAt m0 p)"
    using ids [of p]
    by (simp add: searchVisit_model fold_updateAt_node nodeAt_updateAt split: option.splits)
  show "snd (searchVisit (\<lambda>n. test (nodeText n)) q (t, ms)) = ms @ searchMatches test m0 [q]"
  proof (cases "nodeAt (model t) q")
    case None
    then have "nodeAt m0 q = None" using ids [of q] by simp
    then show ?thesis using None by (simp add: searchVisit_matches searchMatches_def)
  next
    case (Some n)
    then obtain n0 where n0: "nodeAt m0 q = Some n0" using ids [of q] by (cases "nodeAt m0 q") simp_all
    have "nodeText n = nodeText n0" "nodeId n = nodeId n0" "itree n = itree n0"
      using tx [of q] ids [of q] sq Some n0 by (simp_all add: stateAt_def)
    then show ?thesis using Some n0
      by (simp add: searchVisit_matches searchMatches_def matchAt_def)
  qed
  show "stateAt ?M p = searchedState test m0 (visited @ [q]) p"
  proof (cases "nodeAt (model t) q")
    case None
    then have n0: "nodeAt m0 q = None" using ids [of q] by simp
    have "?M = model t" using None by (simp add: searchVisit_model)
    moreover have "searchedState test m0 visited q = None"
      using n0 by (simp add: searchedState_def)
    ultimately show ?thesis
      using st [of p] n0 None
      by (simp add: searchedState_snoc [OF fresh] matchAt_def stateAt_def)
  next
    case (Some n)
    then obtain n0 where n0: "nodeAt m0 q = Some n0" using ids [of q] by (cases "nodeAt m0 q") simp_all
    have eq: "nodeText n = nodeText n0" "nodeId n = nodeId n0" "itree n = itree n0"
      using tx [of q] ids [of q] sq Some n0 by (simp_all add: stateAt_def)
    show ?thesis
    proof (cases "removed (itree n0)")
      case True
      then have "?M = model t" using Some eq by (simp add: searchVisit_model)
      then show ?thesis
        using st [of p] st [of q] sq n0 True
        by (simp add: searchedState_snoc [OF fresh] matchAt_def stateAt_def)
    next
      case False
      show ?thesis
      proof (cases "test (nodeText n0)")
        case nomatch: False
        have "?M = updateAt q (\<lambda>s. s\<lparr>hidden := True\<rparr>) (model t)"
          using Some eq False nomatch by (simp add: searchVisit_model)
        then show ?thesis
          using st [of p] sq n0 False nomatch
          by (simp add: searchedState_snoc [OF fresh] matchAt_def stateAt_updateAt)
            (simp add: stateAt_def)
      next
        case match: True
        have M: "?M = fold (\<lambda>r. updateAt r ?e) (ancestors q)
                   (updateAt q (\<lambda>s. s\<lparr>hidden := False\<rparr>) (model t))"
          using Some eq False match by (simp add: searchVisit_model)
        have mq: "matchAt test m0 q" using n0 False match by (simp add: matchAt_def)
        show ?thesis
        proof (cases "p = q")
          case True
          have "q \<notin> set (ancestors q)" by (simp add: set_ancestors)
          then show ?thesis
            using True sq n0 False match
            by (simp add: M fold_updateAt_state [of ?e] stateAt_updateAt searchedState_snoc [OF fresh])
              (simp add: stateAt_def)
        next
          case pq: False
          show ?thesis
          proof (cases "strict_prefix p q")
            case sp: True
            show ?thesis
            proof (cases "p = []")
              case True
              then show ?thesis
                using pq sp mq
                by (simp add: M fold_updateAt_state [of ?e] stateAt_updateAt anc
                    searchedState_snoc [OF fresh] searchedState_root stateAt_def)
            next
              case False
              then show ?thesis
                using pq sp mq st [of p]
                by (simp add: M fold_updateAt_state [of ?e] stateAt_updateAt anc
                    searchedState_snoc [OF fresh])
            qed
          next
            case nsp: False
            then show ?thesis
              using pq st [of p]
              by (simp add: M fold_updateAt_state [of ?e] stateAt_updateAt anc
                  searchedState_snoc [OF fresh])
          qed
        qed
      qed
    qed
  qed
qed

lemma searchMatches_append:
  "searchMatches test m (xs @ ys) = searchMatches test m xs @ searchMatches test m ys"
  by (simp add: searchMatches_def)

lemma search_walk:
  assumes "forestPaths 0 m0 = visited @ todo"
    and "\<And>p. stateAt (model t) p = searchedState test m0 visited p"
    and "\<And>p. map_option nodeText (nodeAt (model t) p) = map_option nodeText (nodeAt m0 p)"
    and "\<And>p. map_option nodeId (nodeAt (model t) p) = map_option nodeId (nodeAt m0 p)"
  shows "(\<forall>p. stateAt (model (fst (fold (searchVisit (\<lambda>n. test (nodeText n))) todo (t, ms)))) p =
             searchedState test m0 (visited @ todo) p)
         \<and> snd (fold (searchVisit (\<lambda>n. test (nodeText n))) todo (t, ms)) =
             ms @ searchMatches test m0 todo"
  using assms
proof (induction todo arbitrary: visited t ms)
  case Nil
  then show ?case by (simp add: searchMatches_def)
next
  case (Cons q todo)
  let ?v = "searchVisit (\<lambda>n. test (nodeText n)) q (t, ms)"
  have fresh: "\<not> prefix q x" if "x \<in> set visited" for x
    using preorder_fresh [OF Cons.prems(1) that] .
  have split: "forestPaths 0 m0 = (visited @ [q]) @ todo" using Cons.prems(1) by simp
  have ih: "(\<forall>p. stateAt (model (fst (fold (searchVisit (\<lambda>n. test (nodeText n))) todo (fst ?v, snd ?v)))) p =
             searchedState test m0 ((visited @ [q]) @ todo) p)
         \<and> snd (fold (searchVisit (\<lambda>n. test (nodeText n))) todo (fst ?v, snd ?v)) =
             snd ?v @ searchMatches test m0 todo"
    by (rule Cons.IH [OF split])
      (rule searchVisit_step [OF Cons.prems(2) Cons.prems(3) Cons.prems(4) fresh]; assumption)+
  have m: "snd ?v = ms @ searchMatches test m0 [q]"
    by (rule searchVisit_step(4) [OF Cons.prems(2) Cons.prems(3) Cons.prems(4) fresh])
  have sm: "searchMatches test m0 (q # todo) = searchMatches test m0 [q] @ searchMatches test m0 todo"
    using searchMatches_append [of test m0 "[q]" todo] by simp
  have f: "fold (searchVisit (\<lambda>n. test (nodeText n))) (q # todo) (t, ms) =
      fold (searchVisit (\<lambda>n. test (nodeText n))) todo (fst ?v, snd ?v)"
    by simp
  have "snd ?v @ searchMatches test m0 todo = ms @ searchMatches test m0 (q # todo)"
    by (simp only: m sm append_assoc)
  then show ?case using ih unfolding f by simp
qed

lemma searchVisit_paths:
  "forestPaths k (model (fst (searchVisit (\<lambda>n. test (nodeText n)) q acc))) =
     forestPaths k (model (fst acc))"
  by (cases acc) (simp add: searchVisit_model split: option.splits)

lemma search_walk_paths:
  "forestPaths k (model (fst (fold (searchVisit (\<lambda>n. test (nodeText n))) todo acc))) =
     forestPaths k (model (fst acc))"
  by (induction todo arbitrary: acc) (simp_all add: searchVisit_paths)

lemma searchedState_Nil: "searchedState test m [] p = stateAt m p"
  by (simp add: searchedState_def stateAt_def Let_def cong: option.map_cong)

text \<open>
  C6 (as the code has it). Without a custom search function, a search for a non-empty
  string the engine compiles returns the nodes that are not removed and whose text matches,
  in depth-first order, and leaves every node in the state \<open>searchedState\<close> describes:
  a node that is not removed is hidden exactly when its text does not match, unless a
  match lies below it; every node with a match below it, removed or not, is expanded and
  shown; a removed node with no match below it is left as it was. The shape of the model
  does not change.
\<close>

theorem search_string:
  assumes "\<not> customSearch (config t)" and "q \<noteq> []" and "regexp q = Some test"
  shows "\<exists>t'. search regexp (QString q) t =
                Inr (t', Matches (searchMatches test (model t) (forestPaths 0 (model t))))
           \<and> stateAt (model t') p = searchedState test (model t) (forestPaths 0 (model t)) p
           \<and> forestPaths 0 (model t') = forestPaths 0 (model t)"
proof -
  let ?P = "\<lambda>n. test (nodeText n)"
  let ?t0 = "render ''batch'' t"
  let ?w = "fold (searchVisit ?P) (forestPaths 0 (model t)) (?t0, [])"
  have w: "(\<forall>p. stateAt (model (fst ?w)) p =
             searchedState test (model t) ([] @ forestPaths 0 (model t)) p)
         \<and> snd ?w = [] @ searchMatches test (model t) (forestPaths 0 (model t))"
    by (rule search_walk) (simp_all add: searchedState_Nil)
  have s: "search regexp (QString q) t = Inr (render ''end'' (fst ?w), Matches (snd ?w))"
    using assms by (simp add: search_def recurseDown_def case_prod_beta)
  have "forestPaths 0 (model (fst ?w)) = forestPaths 0 (model t)"
    by (simp add: search_walk_paths)
  then show ?thesis using s w by simp
qed

theorem search_string_witness:
  "\<not> customSearch (config (treeOf scenario)) \<and> ''b'' \<noteq> []
   \<and> literalRegExp ''b'' = Some (\<lambda>tx. containsStr ''b'' (map lower tx))
   \<and> (\<exists>t'. search literalRegExp (QString ''b'') (treeOf scenario) = Inr (t', Matches [''2''])
          \<and> stateAt (model t') [0] = Some (defaultState\<lparr>collapsed := False\<rparr>))"
proof -
  have a: "\<not> customSearch (config (treeOf scenario))"
    by (simp add: treeOf_def newTree_def defaultConfig_def)
  have b: "literalRegExp ''b'' = Some (\<lambda>tx. containsStr ''b'' (map lower tx))"
    by (simp add: literalRegExp_def isMeta_def lower_def)
  have c: "''b'' \<noteq> []" by simp
  have m: "model (treeOf scenario) = scenario" by (simp add: treeOf_def)
  have ps: "forestPaths 0 scenario = [[0], [0, 0]]" by (simp add: scenario_def)
  have ma: "\<not> matchAt (\<lambda>tx. containsStr ''b'' (map lower tx)) scenario [0]"
    "matchAt (\<lambda>tx. containsStr ''b'' (map lower tx)) scenario [0, 0]"
    by (simp_all add: matchAt_def scenario_def defaultState_def lower_def)
  have sm: "searchMatches (\<lambda>tx. containsStr ''b'' (map lower tx)) scenario [[0], [0, 0]] = [''2'']"
    using ma by (simp add: searchMatches_def scenario_def)
  have ss: "searchedState (\<lambda>tx. containsStr ''b'' (map lower tx)) scenario [[0], [0, 0]] [0] =
      Some (defaultState\<lparr>collapsed := False\<rparr>)"
    using ma by (simp add: searchedState_def scenario_def defaultState_def lower_def)
  show ?thesis
    using search_string [where t = "treeOf scenario" and q = "''b''" and regexp = literalRegExp
        and test = "\<lambda>tx. containsStr ''b'' (map lower tx)" and p = "[0]", OF a c b] a b
    unfolding m ps sm ss by blast
qed

text \<open>
  C6 as stated fails on its last part: a removed node is not left untouched when a node
  below it matches. Node 1 is removed and collapsed, its child 2 matches \<open>b\<close>: after
  the search node 1 is expanded.
\<close>

theorem search_expands_removed_ancestor:
  "\<not> isl (search literalRegExp (QString ''b'') (treeOf removedParent))
   \<and> stateAt (model (treeOf removedParent)) [0] = Some (defaultState\<lparr>removed := True\<rparr>)
   \<and> stateAt (model (fst (projr (search literalRegExp (QString ''b'') (treeOf removedParent))))) [0] =
       Some (defaultState\<lparr>removed := True, collapsed := False\<rparr>)"
  by code_simp

text \<open>
  C7 (as the code has it). Without a custom search function, a search with an empty query
  (the empty string or a falsy value) is \<open>clearSearch()\<close>: afterwards every node is
  shown and collapsed, nothing else having changed.
\<close>

theorem search_empty_clears:
  assumes "\<not> customSearch (config t)" and "isEmptyQuery query"
  shows "search regexp query t = Inr (clearSearch t, TheTree)
         \<and> stateAt (model (clearSearch t)) p =
             map_option (\<lambda>s. s\<lparr>hidden := False, collapsed := True\<rparr>) (stateAt (model t) p)
         \<and> forestPaths 0 (model (clearSearch t)) = forestPaths 0 (model t)"
  using assms by (simp add: search_def clearSearch_state)

theorem search_empty_clears_witness:
  "\<not> customSearch (config (treeOf hiddenChild)) \<and> isEmptyQuery (QString [])
   \<and> search literalRegExp (QString []) (treeOf hiddenChild) = Inr (clearSearch (treeOf hiddenChild), TheTree)
   \<and> stateAt (model (clearSearch (treeOf hiddenChild))) [0] = Some defaultState
   \<and> stateAt (model (clearSearch (treeOf hiddenChild))) [0, 0] = Some defaultState"
  using search_empty_clears [of "treeOf hiddenChild" "QString []" literalRegExp "[0]"]
    search_empty_clears [of "treeOf hiddenChild" "QString []" literalRegExp "[0, 0]"]
  by (simp add: treeOf_def newTree_def defaultConfig_def hiddenChild_def stateAt_def defaultState_def)

text \<open>
  C7 as stated fails for a blank query: a string of one space is not empty, so it is
  searched for, and the three roots A, B, C, none of which contains a space, end up hidden,
  whereas \<open>clearSearch()\<close> shows them.
\<close>

theorem search_blank_hides:
  "\<not> isl (search literalRegExp (QString '' '') (treeOf abc))
   \<and> map (\<lambda>n. hidden (itree n)) (model (fst (projr (search literalRegExp (QString '' '') (treeOf abc))))) =
       [True, True, True]
   \<and> map (\<lambda>n. hidden (itree n)) (model (clearSearch (treeOf abc))) = [False, False, False]"
  by code_simp

end
